theory Spec2Isabelle
  imports Complex_Main
begin

section \<open>The load-test orchestrator (class JitsiLoadTestOrchestrator)\<close>

text \<open>
  The development embeds the class \<open>JitsiLoadTestOrchestrator\<close> of the orchestrator
  script: capacity planning, provisioning, the incremental test loop, the parsing of the
  test output and the final report.

  Modelling conventions.
  \<^item> The three numeric settings come from \<open>parseInt(process.env.X) || default\<close>, so
    they are integers; they are modelled as \<open>int\<close>, and the integer arithmetic of the
    script is exact (values stay within the range where an IEEE double is an exact
    integer). The one place where the script leaves the integers, \<open>Math.ceil(a / b)\<close>
    with a possibly zero divisor, yields a \<open>jsnum\<close>.
  \<^item> Strings are \<open>string\<close>; the characters of remote output are taken to be ASCII.
  \<^item> The cloud provider and the remote machines are an explicit environment \<open>env\<close>:
    what \<open>doctl\<close> answers for a droplet name, what an \<open>ssh\<close> call answers, how
    long a test took. The text of the shell scripts sent over \<open>ssh\<close> is not modelled;
    the environment is keyed by the purpose of the call instead.
  \<^item> A thrown exception is an exit value carrying the message; the state reached at the
    throw is returned with it.
  \<^item> Loops that may run forever take fuel, one unit per iteration; running out of fuel
    is the exit \<open>OutOfFuel\<close>.
  \<^item> \<open>sleep\<close> and \<open>console.log\<close> are not modelled, nor are the startup checks that
    \<open>DO_TOKEN\<close> and \<open>DO_SSH_KEY_ID\<close> are set: the model starts at the constructor.
\<close>

subsection \<open>JavaScript numbers that may be non-finite\<close>

datatype jsnum = Fin int | PosInfinity | NegInfinity | NaN

text \<open>\<open>a < b\<close> on numbers; every comparison with \<open>NaN\<close> is false.\<close>

fun js_lt :: "jsnum \<Rightarrow> jsnum \<Rightarrow> bool" where
  "js_lt NaN _ = False"
| "js_lt _ NaN = False"
| "js_lt (Fin a) (Fin b) = (a < b)"
| "js_lt (Fin a) PosInfinity = True"
| "js_lt (Fin a) NegInfinity = False"
| "js_lt PosInfinity _ = False"
| "js_lt NegInfinity (Fin b) = True"
| "js_lt NegInfinity PosInfinity = True"
| "js_lt NegInfinity NegInfinity = False"

text \<open>\<open>a <= b\<close> on numbers.\<close>

fun js_le :: "jsnum \<Rightarrow> jsnum \<Rightarrow> bool" where
  "js_le NaN _ = False"
| "js_le _ NaN = False"
| "js_le (Fin a) (Fin b) = (a \<le> b)"
| "js_le (Fin a) PosInfinity = True"
| "js_le (Fin a) NegInfinity = False"
| "js_le PosInfinity PosInfinity = True"
| "js_le PosInfinity _ = False"
| "js_le NegInfinity _ = True"

text \<open>\<open>a - b\<close> on numbers.\<close>

fun js_sub :: "jsnum \<Rightarrow> jsnum \<Rightarrow> jsnum" where
  "js_sub NaN _ = NaN"
| "js_sub _ NaN = NaN"
| "js_sub (Fin a) (Fin b) = Fin (a - b)"
| "js_sub (Fin a) PosInfinity = NegInfinity"
| "js_sub (Fin a) NegInfinity = PosInfinity"
| "js_sub PosInfinity PosInfinity = NaN"
| "js_sub PosInfinity _ = PosInfinity"
| "js_sub NegInfinity NegInfinity = NaN"
| "js_sub NegInfinity _ = NegInfinity"

text \<open>\<open>Math.min(a, b)\<close>.\<close>

fun math_min :: "jsnum \<Rightarrow> jsnum \<Rightarrow> jsnum" where
  "math_min NaN _ = NaN"
| "math_min _ NaN = NaN"
| "math_min a b = (if js_lt b a then b else a)"

text \<open>
  \<open>Math.ceil(a / b)\<close> for integers \<open>a\<close> and \<open>b\<close>. Division by zero gives an
  infinity of the sign of \<open>a\<close>, and \<open>0 / 0\<close> is \<open>NaN\<close>; \<open>Math.ceil\<close> leaves
  these unchanged. Otherwise the quotient is rounded up: \<open>div\<close> on \<open>int\<close> rounds
  down, for either sign of the divisor.
\<close>

definition math_ceil_div :: "int \<Rightarrow> int \<Rightarrow> jsnum" where
  "math_ceil_div a b =
     (if b = 0 then (if 0 < a then PosInfinity else if a < 0 then NegInfinity else NaN)
      else Fin (- ((- a) div b)))"

subsection \<open>Strings\<close>

definition starts_with :: "string \<Rightarrow> string \<Rightarrow> bool" where
  "starts_with p s = (take (length p) s = p)"

text \<open>\<open>s.includes(t)\<close>: \<open>t\<close> occurs in \<open>s\<close> as a contiguous substring.\<close>

fun str_includes :: "string \<Rightarrow> string \<Rightarrow> bool" where
  "str_includes [] t = (t = [])"
| "str_includes (c # s) t = (starts_with t (c # s) \<or> str_includes s t)"

definition digit_char :: "nat \<Rightarrow> char" where
  "digit_char d = ''0123456789'' ! d"

text \<open>The decimal digits of a natural number, as in a template literal \<open>${n}\<close>.\<close>

fun decimal :: "nat \<Rightarrow> string" where
  "decimal n = (if n < 10 then [digit_char n] else decimal (n div 10) @ [digit_char (n mod 10)])"

declare decimal.simps [simp del]

subsection \<open>Configuration and the orchestrator's state\<close>

record config =
  maxParticipants :: int
  incrementStep :: int
  participantsPerNode :: int
  autoCleanup :: bool

text \<open>
  \<open>parseInt(process.env.X) || d\<close>: \<open>None\<close> stands for \<open>NaN\<close> (variable unset or
  not a number); \<open>NaN\<close> and \<open>0\<close> are falsy and give the default.
\<close>

definition or_default :: "int option \<Rightarrow> int \<Rightarrow> int" where
  "or_default v d = (case v of None \<Rightarrow> d | Some n \<Rightarrow> if n = 0 then d else n)"

text \<open>The \<open>config\<close> object built at startup from the environment variables
  \<open>MAX_PARTICIPANTS\<close>, \<open>INCREMENT_STEP\<close>, \<open>PARTICIPANTS_PER_NODE\<close> and
  \<open>AUTO_CLEANUP\<close>.\<close>

definition startup_config :: "int option \<Rightarrow> int option \<Rightarrow> int option \<Rightarrow> bool \<Rightarrow> config" where
  "startup_config maxP incS perNode cleanupFlag =
     \<lparr> maxParticipants = or_default maxP 1000,
       incrementStep = or_default incS 50,
       participantsPerNode = or_default perNode 80,
       autoCleanup = cleanupFlag \<rparr>"

record node =
  node_id :: int
  node_name :: string
  node_ip :: string
  node_maxParticipants :: int

record metrics =
  participantsJoined :: "nat option"
  testDuration :: "string option"
  failureReasons :: "string list option"

text \<open>A test result; the \<open>timestamp\<close> field (wall-clock time) is left out.\<close>

record test_result =
  participants :: int
  success :: bool
  errors :: "string list"
  duration :: int
  metrics :: metrics

text \<open>
  The fields of the class. \<open>requiredNodes\<close> is \<open>None\<close> while the property is
  undefined. \<open>testCalls\<close> is not a field of the class: it is an observation log, one
  entry per call of \<open>runSingleTest\<close>, holding the requested load and the registry
  \<open>this.nodes\<close> as it is at the moment of the call. Nothing reads it.
\<close>

record orchestrator =
  config :: config
  nodes :: "node list"
  hubIp :: "string option"
  testResults :: "test_result list"
  requiredNodes :: "jsnum option"
  testCalls :: "(int \<times> node list) list"

text \<open>The constructor: the spread \<open>...config\<close> comes last, so every setting present
  in \<open>config\<close> overrides the constructor's own default.\<close>

definition new_orchestrator :: "config \<Rightarrow> orchestrator" where
  "new_orchestrator cfg =
     \<lparr> config = cfg, nodes = [], hubIp = None, testResults = [],
       requiredNodes = None, testCalls = [] \<rparr>"

subsection \<open>Capacity planning\<close>

definition calculateInfrastructure :: "orchestrator \<Rightarrow> orchestrator" where
  "calculateInfrastructure st =
     (let nodesNeeded = math_ceil_div (maxParticipants (config st)) (participantsPerNode (config st))
      in st\<lparr>requiredNodes := Some nodesNeeded\<rparr>)"

subsection \<open>The environment: cloud provider and remote machines\<close>

text \<open>
  The purpose of an \<open>ssh\<close> call. A test run is identified by the number of results
  recorded before it and by its load, so that two runs of one campaign are never the
  same call.
\<close>

datatype ssh_call = HubSetup | NodeSetup string | TortureSetup | TestRun nat int

text \<open>
  What running a command gives: the promise is rejected with a message (the command
  could not be run or exited with an error), or it completes with \<open>stdout\<close> and
  \<open>stderr\<close>.
\<close>

datatype exec_reply = Rejected string | Completed string string

text \<open>
  \<open>doctl_create name\<close> is the outcome of \<open>doctl compute droplet create name\<close>:
  a rejection message, or the id and public address parsed from its output (an output
  that does not parse gives \<open>NaN\<close> and \<open>undefined\<close> in the script; the model
  does not tell these from other values, and nothing depends on them).
  \<open>ssh call\<close> is the outcome of the \<open>ssh\<close> command of that call,
  \<open>test_elapsed k\<close> the time that the test with index \<open>k\<close> took, and
  \<open>report_write\<close> the outcome of writing the report file (\<open>None\<close>: written).
\<close>

record env =
  doctl_create :: "string \<Rightarrow> string + (int \<times> string)"
  ssh :: "ssh_call \<Rightarrow> exec_reply"
  test_elapsed :: "nat \<Rightarrow> int"
  report_write :: "string option"

datatype exit = Normal | Threw string | OutOfFuel

definition executeRemoteScript :: "env \<Rightarrow> ssh_call \<Rightarrow> string + string" where
  "executeRemoteScript e call =
     (case ssh e call of
        Rejected msg \<Rightarrow> Inl msg
      | Completed stdout stderr \<Rightarrow>
          if stderr \<noteq> [] \<and> \<not> str_includes stderr ''Warning''
          then Inl (''SSH execution failed: '' @ stderr)
          else Inr stdout)"

definition createDroplet :: "env \<Rightarrow> string \<Rightarrow> string + (int \<times> string)" where
  "createDroplet e name = doctl_create e name"

definition node_named :: "nat \<Rightarrow> string" where
  "node_named i = ''jitsi-node-'' @ decimal i"

definition setupHub :: "env \<Rightarrow> string + string" where
  "setupHub e = executeRemoteScript e HubSetup"

definition setupNode :: "env \<Rightarrow> node \<Rightarrow> string + string" where
  "setupNode e n = executeRemoteScript e (NodeSetup (node_name n))"

definition setupTorture :: "env \<Rightarrow> string + string" where
  "setupTorture e = executeRemoteScript e TortureSetup"

subsection \<open>Provisioning and setup\<close>

text \<open>The loop \<open>for (i = 1; i <= initialNodes; i++)\<close> of
  \<open>provisionInfrastructure\<close>.\<close>

fun provisionLoop :: "env \<Rightarrow> nat \<Rightarrow> nat \<Rightarrow> jsnum \<Rightarrow> orchestrator \<Rightarrow> exit \<times> orchestrator" where
  "provisionLoop e 0 i initialNodes st =
     (if js_le (Fin (int i)) initialNodes then (OutOfFuel, st) else (Normal, st))"
| "provisionLoop e (Suc fuel) i initialNodes st =
     (if js_le (Fin (int i)) initialNodes then
        (case createDroplet e (node_named i) of
           Inl msg \<Rightarrow> (Threw msg, st)
         | Inr (did, dip) \<Rightarrow>
             provisionLoop e fuel (i + 1) initialNodes
               (st\<lparr>nodes := nodes st @
                  [\<lparr> node_id = did, node_name = node_named i, node_ip = dip,
                     node_maxParticipants = participantsPerNode (config st) \<rparr>]\<rparr>))
      else (Normal, st))"

text \<open>\<open>this.requiredNodes\<close> read as a number: \<open>undefined\<close> becomes \<open>NaN\<close>.\<close>

definition required_number :: "orchestrator \<Rightarrow> jsnum" where
  "required_number st = (case requiredNodes st of None \<Rightarrow> NaN | Some r \<Rightarrow> r)"

definition provisionInfrastructure :: "env \<Rightarrow> nat \<Rightarrow> orchestrator \<Rightarrow> exit \<times> orchestrator" where
  "provisionInfrastructure e fuel st =
     (case createDroplet e ''jitsi-hub'' of
        Inl msg \<Rightarrow> (Threw msg, st)
      | Inr (hid, hip) \<Rightarrow>
          (let st1 = st\<lparr>hubIp := Some hip\<rparr>;
               initialNodes = math_min (Fin 3) (required_number st1)
           in provisionLoop e fuel 1 initialNodes st1))"

text \<open>The loop \<open>for (const node of this.nodes)\<close> of \<open>setupInfrastructure\<close>.\<close>

fun setupNodes :: "env \<Rightarrow> node list \<Rightarrow> exit" where
  "setupNodes e [] = Normal"
| "setupNodes e (n # ns) =
     (case setupNode e n of Inl msg \<Rightarrow> Threw msg | Inr out \<Rightarrow> setupNodes e ns)"

definition setupInfrastructure :: "env \<Rightarrow> orchestrator \<Rightarrow> exit" where
  "setupInfrastructure e st =
     (case setupHub e of
        Inl msg \<Rightarrow> Threw msg
      | Inr out \<Rightarrow>
          (case setupNodes e (nodes st) of
             Normal \<Rightarrow> (case setupTorture e of Inl msg \<Rightarrow> Threw msg | Inr out' \<Rightarrow> Normal)
           | x \<Rightarrow> x))"

text \<open>The loop \<open>for (i = 0; i < count; i++)\<close> of \<open>addNodes\<close>; \<open>count\<close> may be
  \<open>Infinity\<close>, and then the loop only ends by a throw.\<close>

fun addNodesLoop :: "env \<Rightarrow> nat \<Rightarrow> nat \<Rightarrow> jsnum \<Rightarrow> nat \<Rightarrow> orchestrator \<Rightarrow> exit \<times> orchestrator" where
  "addNodesLoop e 0 i count startIndex st =
     (if js_lt (Fin (int i)) count then (OutOfFuel, st) else (Normal, st))"
| "addNodesLoop e (Suc fuel) i count startIndex st =
     (if js_lt (Fin (int i)) count then
        (let nodeIndex = startIndex + i in
         case createDroplet e (node_named nodeIndex) of
           Inl msg \<Rightarrow> (Threw msg, st)
         | Inr (did, dip) \<Rightarrow>
             (let newNode = \<lparr> node_id = did, node_name = node_named nodeIndex, node_ip = dip,
                              node_maxParticipants = participantsPerNode (config st) \<rparr>;
                  st1 = st\<lparr>nodes := nodes st @ [newNode]\<rparr>
              in case setupNode e newNode of
                   Inl msg \<Rightarrow> (Threw msg, st1)
                 | Inr out \<Rightarrow> addNodesLoop e fuel (i + 1) count startIndex st1))
      else (Normal, st))"

definition addNodes :: "env \<Rightarrow> nat \<Rightarrow> jsnum \<Rightarrow> orchestrator \<Rightarrow> exit \<times> orchestrator" where
  "addNodes e fuel count st = addNodesLoop e fuel 0 count (length (nodes st) + 1) st"


subsection \<open>Parsing the test output\<close>

definition is_digit :: "char \<Rightarrow> bool" where
  "is_digit c = (c \<in> set ''0123456789'')"

text \<open>The ASCII characters of the class \<open>\s\<close>: tab, line feed, vertical tab, form
  feed, carriage return, space.\<close>

definition is_space :: "char \<Rightarrow> bool" where
  "is_space c = (c \<in> set [CHR 0x09, CHR 0x0A, CHR 0x0B, CHR 0x0C, CHR 0x0D, CHR 0x20])"

text \<open>The characters that \<open>.\<close> does not match.\<close>

definition is_line_terminator :: "char \<Rightarrow> bool" where
  "is_line_terminator c = (c = CHR 0x0A \<or> c = CHR 0x0D)"

definition to_lower :: "char \<Rightarrow> char" where
  "to_lower c =
     (case map_of (zip ''ABCDEFGHIJKLMNOPQRSTUVWXYZ'' ''abcdefghijklmnopqrstuvwxyz'') c of
        None \<Rightarrow> c | Some l \<Rightarrow> l)"

text \<open>Prefix test ignoring case (flag \<open>i\<close>); \<open>p\<close> is given in lower case.\<close>

definition starts_with_ci :: "string \<Rightarrow> string \<Rightarrow> bool" where
  "starts_with_ci p s = (map to_lower (take (length p) s) = p)"

text \<open>\<open>parseInt\<close> of a string of decimal digits.\<close>

definition digit_value :: "char \<Rightarrow> nat" where
  "digit_value c = length (takeWhile (\<lambda>d. d \<noteq> c) ''0123456789'')"

definition parseInt_digits :: "string \<Rightarrow> nat" where
  "parseInt_digits ds = foldl (\<lambda>a c. 10 * a + digit_value c) 0 ds"

text \<open>
  \<open>output.match(/ERROR.*|FAILED.*/g)\<close>: the matches from left to right, each
  running to the end of its line; the search resumes after a match.
\<close>

function match_errors :: "string \<Rightarrow> string list" where
  "match_errors [] = []"
| "match_errors (c # s) =
     (if starts_with ''ERROR'' (c # s) \<or> starts_with ''FAILED'' (c # s)
      then (c # takeWhile (\<lambda>x. \<not> is_line_terminator x) s)
             # match_errors (dropWhile (\<lambda>x. \<not> is_line_terminator x) s)
      else match_errors s)"
  by pat_completeness auto
termination
  by (relation "measure length") (auto simp: le_imp_less_Suc length_dropWhile_le)

text \<open>\<open>output.match(/(?:ERROR|FAILED):[^\n]*/g)\<close>: as above, with a colon after the
  keyword, and a match stops only at a line feed.\<close>

function match_failureReasons :: "string \<Rightarrow> string list" where
  "match_failureReasons [] = []"
| "match_failureReasons (c # s) =
     (if starts_with ''ERROR:'' (c # s) \<or> starts_with ''FAILED:'' (c # s)
      then (c # takeWhile (\<lambda>x. x \<noteq> CHR 0x0A) s)
             # match_failureReasons (dropWhile (\<lambda>x. x \<noteq> CHR 0x0A) s)
      else match_failureReasons s)"
  by pat_completeness auto
termination
  by (relation "measure length") (auto simp: le_imp_less_Suc length_dropWhile_le)

text \<open>
  The part \<open>\s+participants?\s+joined\<close> of the first pattern, matched at the start of
  \<open>r1\<close> (the text after the digits); the result is the text after the match. Every
  quantifier is followed by a character outside its class, so there is no backtracking
  to model.
\<close>

definition joined_rest :: "string \<Rightarrow> string option" where
  "joined_rest r1 =
     (let r2 = dropWhile is_space r1 in
      if takeWhile is_space r1 = [] \<or> \<not> starts_with_ci ''participant'' r2 then None
      else
        let r3 = drop 11 r2;
            r4 = (if r3 \<noteq> [] \<and> to_lower (hd r3) = CHR ''s'' then tl r3 else r3);
            r5 = dropWhile is_space r4
        in if takeWhile is_space r4 = [] \<or> \<not> starts_with_ci ''joined'' r5 then None
           else Some (drop 6 r5))"

text \<open>
  \<open>output.match(/(\d+)\s+participants?\s+joined/gi)\<close>, keeping of each match its
  leading digits (what \<open>match(/\d+/)[0]\<close> later extracts from it).
\<close>

function joinMatches :: "string \<Rightarrow> string list" where
  "joinMatches [] = []"
| "joinMatches (c # s) =
     (if is_digit c then
        (case joined_rest (dropWhile is_digit s) of
           Some rest \<Rightarrow> (c # takeWhile is_digit s) # joinMatches rest
         | None \<Rightarrow> joinMatches s)
      else joinMatches s)"
  by pat_completeness auto
termination
proof (relation "measure length")
  show "wf (measure length)" by simp
next
  fix c :: char and s rest :: string
  assume "is_digit c" and r: "joined_rest (dropWhile is_digit s) = Some rest"
  have a: "length (dropWhile P xs) \<le> length xs" for P and xs :: string
    by (rule length_dropWhile_le)
  have "length rest \<le> length s"
  proof -
    let ?r2 = "dropWhile is_space (dropWhile is_digit s)"
    let ?r3 = "drop 11 ?r2"
    have "length ?r2 \<le> length s"
      by (rule order_trans [OF a a])
    then have r3: "length ?r3 \<le> length s" by simp
    have "length (tl ?r3) \<le> length s"
      using r3 by simp
    with r3 have "length (drop 6 (dropWhile is_space (tl ?r3))) \<le> length s"
      and "length (drop 6 (dropWhile is_space ?r3)) \<le> length s"
      using a [of is_space "tl ?r3"] a [of is_space ?r3] by simp_all
    with r show ?thesis
      by (auto simp: joined_rest_def Let_def split: if_splits)
  qed
  then show "(rest, c # s) \<in> measure length" by simp
qed simp_all

text \<open>
  The pattern \<open>Total time:\s+(\d+:\d+)\<close> matched at the start of \<open>s\<close>; the result
  is the captured group.
\<close>

definition total_time_at :: "string \<Rightarrow> string option" where
  "total_time_at s =
     (if \<not> starts_with ''Total time:'' s then None
      else
        let r1 = drop 11 s;
            r2 = dropWhile is_space r1;
            minutes = takeWhile is_digit r2;
            r3 = dropWhile is_digit r2;
            seconds = takeWhile is_digit (drop 1 r3)
        in if takeWhile is_space r1 = [] \<or> minutes = [] \<or> \<not> starts_with '':'' r3 \<or> seconds = []
           then None
           else Some (minutes @ '':'' @ seconds))"

text \<open>\<open>output.match(/Total time:\s+(\d+:\d+)/)\<close>, without the flag \<open>g\<close>: the
  search goes through the start positions from the left and stops at the first match.\<close>

fun durationMatch :: "string \<Rightarrow> string option" where
  "durationMatch [] = None"
| "durationMatch (c # s) =
     (case total_time_at (c # s) of Some t \<Rightarrow> Some t | None \<Rightarrow> durationMatch s)"

definition parseTestMetrics :: "string \<Rightarrow> metrics" where
  "parseTestMetrics output =
     (let jm = joinMatches output in
      \<lparr> participantsJoined = (if jm = [] then None else Some (parseInt_digits (last jm))),
        testDuration = durationMatch output,
        failureReasons = Some (take 3 (match_failureReasons output)) \<rparr>)"

text \<open>The object \<open>{}\<close> that \<open>result.metrics\<close> starts as.\<close>

definition no_metrics :: metrics where
  "no_metrics = \<lparr> participantsJoined = None, testDuration = None, failureReasons = None \<rparr>"

subsection \<open>One test run\<close>

definition runSingleTest :: "env \<Rightarrow> orchestrator \<Rightarrow> int \<Rightarrow> test_result" where
  "runSingleTest e st p =
     (let k = length (testResults st) in
      case executeRemoteScript e (TestRun k p) of
        Inr output \<Rightarrow>
          (let ok = (str_includes output ''BUILD SUCCESS'' \<or> \<not> str_includes output ''FAILURES'')
           in \<lparr> participants = p, success = ok,
                errors = (if \<not> ok then take 5 (match_errors output) else []),
                duration = test_elapsed e k,
                metrics = parseTestMetrics output \<rparr>)
      | Inl msg \<Rightarrow>
          \<lparr> participants = p, success = False, errors = [msg],
            duration = test_elapsed e k, metrics = no_metrics \<rparr>)"

subsection \<open>The incremental test loop\<close>

text \<open>
  The \<open>for\<close> loop of \<open>runIncrementalTests\<close>, entered with the loop variable
  \<open>participants = p\<close> and the local \<open>currentNodes\<close>. The fuel left is also the
  fuel of the inner loop of \<open>addNodes\<close>.
\<close>

fun testLoop :: "env \<Rightarrow> nat \<Rightarrow> int \<Rightarrow> jsnum \<Rightarrow> orchestrator \<Rightarrow> exit \<times> orchestrator" where
  "testLoop e 0 p currentNodes st =
     (if p \<le> maxParticipants (config st) then (OutOfFuel, st) else (Normal, st))"
| "testLoop e (Suc fuel) p currentNodes st =
     (if p \<le> maxParticipants (config st) then
        (let required = math_ceil_div p (participantsPerNode (config st));
             (x, currentNodes1, st1) =
               (if js_lt currentNodes required then
                  (case addNodes e fuel (js_sub required currentNodes) st of
                     (Normal, st') \<Rightarrow> (Normal, required, st')
                   | (x', st') \<Rightarrow> (x', currentNodes, st'))
                else (Normal, currentNodes, st))
         in case x of
              Normal \<Rightarrow>
                (let result = runSingleTest e st1 p;
                     st2 = st1\<lparr>testResults := testResults st1 @ [result],
                               testCalls := testCalls st1 @ [(p, nodes st1)]\<rparr>
                 in if \<not> success result then (Normal, st2)
                    else testLoop e fuel (p + incrementStep (config st)) currentNodes1 st2)
            | _ \<Rightarrow> (x, st1))
      else (Normal, st))"

definition runIncrementalTests :: "env \<Rightarrow> nat \<Rightarrow> orchestrator \<Rightarrow> exit \<times> orchestrator" where
  "runIncrementalTests e fuel st =
     testLoop e fuel (incrementStep (config st)) (Fin (int (length (nodes st)))) st"

subsection \<open>The final report\<close>

text \<open>
  The \<open>summary\<close> object. \<open>estimatedCost\<close> (a floating-point amount) is left out.
  \<open>successRate\<close> is the string made by \<open>toFixed(1)\<close>.
\<close>

record report_summary =
  maxSuccessfulParticipants :: int
  breakingPoint :: "int option"
  totalTests :: nat
  successRate :: string
  recommendedCapacity :: int

record report =
  nodesUsed :: nat
  summary :: report_summary
  detailedResults :: "test_result list"
  hub :: "string option"
  report_nodes :: "node list"

text \<open>\<open>Math.max(...xs, 0)\<close>.\<close>

definition math_max_0 :: "int list \<Rightarrow> int" where
  "math_max_0 xs = foldr max xs 0"

text \<open>
  The double-precision arithmetic of \<open>((s / t) * 100).toFixed(1)\<close>, for counts
  \<open>0 < s \<le> t\<close> below \<open>2^53\<close>. A positive double is written as a pair
  \<open>(m, k)\<close> that stands for \<open>m / 2^k\<close>.
\<close>

text \<open>The number of binary digits of \<open>n\<close>.\<close>

fun bit_length :: "nat \<Rightarrow> nat" where
  "bit_length n = (if n = 0 then 0 else Suc (bit_length (n div 2)))"

declare bit_length.simps [simp del]

text \<open>The integer nearest to \<open>a / b\<close>; of two nearest integers the even one
  (the rounding of IEEE 754 arithmetic).\<close>

definition round_half_even :: "nat \<Rightarrow> nat \<Rightarrow> nat" where
  "round_half_even a b =
     (let q = a div b; r = a mod b
      in if 2 * r < b then q else if b < 2 * r then q + 1 else if even q then q else q + 1)"

text \<open>The least \<open>j\<close> with \<open>t \<le> s * 2^j\<close>, for \<open>0 < s\<close>: it brings the quotient
  \<open>s / t \<le> 1\<close> into the interval from 1 to 2.\<close>

function binary_shift :: "nat \<Rightarrow> nat \<Rightarrow> nat" where
  "binary_shift s t = (if s = 0 \<or> t \<le> s then 0 else Suc (binary_shift (2 * s) t))"
  by pat_completeness auto
termination
  by (relation "measure (\<lambda>(s, t). t - s)") auto

declare binary_shift.simps [simp del]

text \<open>The double \<open>s / t\<close>: the quotient is rounded to 53 significant binary
  digits.\<close>

definition double_quotient :: "nat \<Rightarrow> nat \<Rightarrow> nat \<times> nat" where
  "double_quotient s t =
     (round_half_even (s * 2 ^ (binary_shift s t + 52)) t, binary_shift s t + 52)"

text \<open>The double \<open>d * 100\<close>: the product is exact when it has at most 53 binary
  digits, and is rounded to 53 significant binary digits otherwise.\<close>

definition double_times_100 :: "nat \<times> nat \<Rightarrow> nat \<times> nat" where
  "double_times_100 d =
     (round_half_even (100 * fst d) (2 ^ (bit_length (100 * fst d) - 53))
        * 2 ^ (bit_length (100 * fst d) - 53),
      snd d)"

text \<open>The integer \<open>n\<close> of \<open>x.toFixed(1)\<close>: \<open>n / 10\<close> is as close to the exact
  value of the double \<open>x\<close> as possible, and of two such \<open>n\<close> it is the larger.\<close>

definition toFixed1_tenths :: "nat \<times> nat \<Rightarrow> nat" where
  "toFixed1_tenths x = (20 * fst x + 2 ^ snd x) div (2 * 2 ^ snd x)"

text \<open>The tenths printed for \<open>s\<close> successes among \<open>t > 0\<close> results; \<open>0 / t\<close> is
  the double 0.\<close>

definition rate_tenths :: "nat \<Rightarrow> nat \<Rightarrow> nat" where
  "rate_tenths s t =
     toFixed1_tenths (if s = 0 then (0, 0) else double_times_100 (double_quotient s t))"

text \<open>
  \<open>((s / t) * 100).toFixed(1)\<close> for counts \<open>s \<le> t\<close>. With \<open>t = 0\<close> the quotient
  is \<open>NaN\<close>, which \<open>toFixed\<close> prints as \<open>NaN\<close>. Otherwise the tenths are printed
  with one fractional digit.
\<close>

definition successRate_string :: "nat \<Rightarrow> nat \<Rightarrow> string" where
  "successRate_string s t =
     (if t = 0 then ''NaN''
      else decimal (rate_tenths s t div 10) @ ''.'' @ decimal (rate_tenths s t mod 10))"

text \<open>
  \<open>Math.floor(m * 0.8)\<close> for an integer \<open>m\<close>. The double \<open>0.8\<close> exceeds
  \<open>4/5\<close> by less than one part in \<open>2^54\<close>, so the rounded product has the floor of
  the exact \<open>4m/5\<close>.
\<close>

definition floor_08 :: "int \<Rightarrow> int" where
  "floor_08 m = (4 * m) div 5"

text \<open>\<open>this.testResults.find((r) => !r.success)?.participants || null\<close>: a load of
  \<open>0\<close> is falsy and also gives \<open>null\<close>.\<close>

definition find_breakingPoint :: "test_result list \<Rightarrow> int option" where
  "find_breakingPoint rs =
     (case find (\<lambda>r. \<not> success r) rs of
        None \<Rightarrow> None
      | Some r \<Rightarrow> if participants r = 0 then None else Some (participants r))"

text \<open>The object \<open>report\<close> built by \<open>generateFinalReport\<close>.\<close>

definition build_report :: "orchestrator \<Rightarrow> report" where
  "build_report st =
     (let maxSuccess = math_max_0 (map participants (filter success (testResults st)))
      in \<lparr> nodesUsed = length (nodes st),
           summary =
             \<lparr> maxSuccessfulParticipants = maxSuccess,
               breakingPoint = find_breakingPoint (testResults st),
               totalTests = length (testResults st),
               successRate =
                 successRate_string (length (filter success (testResults st)))
                   (length (testResults st)),
               recommendedCapacity = floor_08 maxSuccess \<rparr>,
           detailedResults = testResults st,
           hub = hubIp st,
           report_nodes = nodes st \<rparr>)"

text \<open>\<open>generateFinalReport\<close> writes the report to a file and returns it; a failed write
  throws.\<close>

definition generateFinalReport :: "env \<Rightarrow> orchestrator \<Rightarrow> string + report" where
  "generateFinalReport e st =
     (case report_write e of Some msg \<Rightarrow> Inl msg | None \<Rightarrow> Inr (build_report st))"

subsection \<open>The whole campaign\<close>

text \<open>\<open>cleanup\<close> never throws; its effect is the list of droplets it asks the provider
  to delete.\<close>

definition cleanup :: "orchestrator \<Rightarrow> string list" where
  "cleanup st = ''jitsi-hub'' # map node_name (nodes st)"

definition cleanup_if_auto :: "orchestrator \<Rightarrow> string list" where
  "cleanup_if_auto st = (if autoCleanup (config st) then cleanup st else [])"

text \<open>
  How \<open>runCompleteTest\<close> ends: it returns after the report was generated, it rethrows
  an error, or it does not end.
\<close>

datatype campaign = Reported report | Aborted string | Unfinished

text \<open>The result of \<open>runCompleteTest\<close>: how it ended, the final state and the droplets
  that cleanup asked to delete.\<close>

definition runCompleteTest :: "env \<Rightarrow> nat \<Rightarrow> orchestrator \<Rightarrow> campaign \<times> orchestrator \<times> string list" where
  "runCompleteTest e fuel st =
     (let st1 = calculateInfrastructure st in
      case provisionInfrastructure e fuel st1 of
        (OutOfFuel, st2) \<Rightarrow> (Unfinished, st2, [])
      | (Threw msg, st2) \<Rightarrow> (Aborted msg, st2, cleanup_if_auto st2)
      | (Normal, st2) \<Rightarrow>
          (case setupInfrastructure e st2 of
             OutOfFuel \<Rightarrow> (Unfinished, st2, [])
           | Threw msg \<Rightarrow> (Aborted msg, st2, cleanup_if_auto st2)
           | Normal \<Rightarrow>
               (case runIncrementalTests e fuel st2 of
                  (OutOfFuel, st3) \<Rightarrow> (Unfinished, st3, [])
                | (Threw msg, st3) \<Rightarrow> (Aborted msg, st3, cleanup_if_auto st3)
                | (Normal, st3) \<Rightarrow>
                    (case generateFinalReport e st3 of
                       Inl msg \<Rightarrow> (Aborted msg, st3, cleanup_if_auto st3)
                     | Inr r \<Rightarrow> (Reported r, st3, cleanup_if_auto st3)))))"

subsection \<open>Example configurations and environments\<close>

text \<open>The settings \<open>MAX_PARTICIPANTS=200\<close>, \<open>INCREMENT_STEP=50\<close>,
  \<open>PARTICIPANTS_PER_NODE=80\<close>.\<close>

definition example_config :: config where
  "example_config = startup_config (Some 200) (Some 50) (Some 80) True"

text \<open>An environment in which every droplet is created, every script runs without
  output, and the report file is written.\<close>

definition env_quiet :: env where
  "env_quiet =
     \<lparr> doctl_create = (\<lambda>name. Inr (1, ''10.0.0.1'')),
       ssh = (\<lambda>call. Completed [] []),
       test_elapsed = (\<lambda>k. 1000),
       report_write = None \<rparr>"

text \<open>As \<open>env_quiet\<close>, but the test at load \<open>l\<close> prints \<open>bad\<close> and every other
  test prints \<open>BUILD SUCCESS\<close>.\<close>

definition env_printing_at :: "int \<Rightarrow> string \<Rightarrow> env" where
  "env_printing_at l bad =
     env_quiet\<lparr>ssh := (\<lambda>call. case call of
        TestRun k p \<Rightarrow> if p = l then Completed bad [] else Completed ''BUILD SUCCESS'' []
      | _ \<Rightarrow> Completed [] [])\<rparr>"

text \<open>As \<open>env_quiet\<close>, but the \<open>ssh\<close> command of the test at load \<open>l\<close> is rejected
  with the message \<open>msg\<close>.\<close>

definition env_rejecting_at :: "int \<Rightarrow> string \<Rightarrow> env" where
  "env_rejecting_at l msg =
     env_quiet\<lparr>ssh := (\<lambda>call. case call of
        TestRun k p \<Rightarrow> if p = l then Rejected msg else Completed ''BUILD SUCCESS'' []
      | _ \<Rightarrow> Completed [] [])\<rparr>"

text \<open>The settings \<open>MAX_PARTICIPANTS=50\<close>, \<open>INCREMENT_STEP=50\<close>,
  \<open>PARTICIPANTS_PER_NODE=-80\<close>.\<close>

definition negative_capacity_config :: config where
  "negative_capacity_config = startup_config (Some 50) (Some 50) (Some (- 80)) True"

text \<open>An output with two total-time lines.\<close>

definition two_total_times :: string where
  "two_total_times = ''Total time: 1:23'' @ [CHR 0x0A] @ ''Total time: 4:56''"

text \<open>The settings \<open>MAX_PARTICIPANTS=150\<close>, \<open>INCREMENT_STEP=50\<close>,
  \<open>PARTICIPANTS_PER_NODE=25\<close>: three nodes at the start, a fourth needed at load 100.\<close>

definition scaling_config :: config where
  "scaling_config = startup_config (Some 150) (Some 50) (Some 25) True"

text \<open>As \<open>env_quiet\<close>, but every test prints \<open>BUILD SUCCESS\<close> and the setup script of
  the node \<open>name\<close> is rejected with the message \<open>msg\<close>.\<close>

definition env_node_setup_rejected :: "string \<Rightarrow> string \<Rightarrow> env" where
  "env_node_setup_rejected name msg =
     env_quiet\<lparr>ssh := (\<lambda>call. case call of
        NodeSetup n \<Rightarrow> if n = name then Rejected msg else Completed [] []
      | TestRun k p \<Rightarrow> Completed ''BUILD SUCCESS'' []
      | _ \<Rightarrow> Completed [] [])\<rparr>"

subsection \<open>The specification's reading of the duration metric\<close>

text \<open>
  All occurrences of a total-time token in the output, in the order of their start
  positions. The specification takes the last of them as the duration.
\<close>

fun total_time_tokens :: "string \<Rightarrow> string list" where
  "total_time_tokens [] = []"
| "total_time_tokens (c # s) =
     (case total_time_at (c # s) of Some t \<Rightarrow> [t] | None \<Rightarrow> []) @ total_time_tokens s"

definition spec_last_total_time :: "string \<Rightarrow> string option" where
  "spec_last_total_time output =
     (if total_time_tokens output = [] then None else Some (last (total_time_tokens output)))"

subsection \<open>The specification's reading of the success rate\<close>

text \<open>The success rate in the specification's words: the count of successful results
  divided by the count of results, absent for an empty log.\<close>

definition spec_successRate :: "test_result list \<Rightarrow> rat option" where
  "spec_successRate rs =
     (if rs = [] then None
      else Some (of_nat (length (filter success rs)) / of_nat (length rs)))"

text \<open>The number that a string of digits with one fractional digit denotes.\<close>

definition fixed1_value :: "string \<Rightarrow> rat" where
  "fixed1_value s =
     of_nat (parseInt_digits (takeWhile (\<lambda>c. c \<noteq> CHR ''.'') s)) +
     of_nat (parseInt_digits (drop 1 (dropWhile (\<lambda>c. c \<noteq> CHR ''.'') s))) / 10"

section \<open>Properties\<close>

subsection \<open>Strings and the inner loops\<close>

lemma starts_with_iff: "starts_with p s \<longleftrightarrow> (\<exists>b. s = p @ b)"
proof
  assume "starts_with p s"
  then have "s = p @ drop (length p) s"
    unfolding starts_with_def by (metis append_take_drop_id)
  then show "\<exists>b. s = p @ b" ..
next
  assume "\<exists>b. s = p @ b"
  then show "starts_with p s" by (auto simp: starts_with_def)
qed

lemma str_includes_iff: "str_includes s t \<longleftrightarrow> (\<exists>a b. s = a @ t @ b)"
proof (induction s)
  case Nil
  show ?case by auto
next
  case (Cons c s)
  have "(\<exists>a b. c # s = a @ t @ b) \<longleftrightarrow> (\<exists>b. c # s = t @ b) \<or> (\<exists>a b. s = a @ t @ b)"
  proof
    assume "\<exists>a b. c # s = a @ t @ b"
    then obtain a b where ab: "c # s = a @ t @ b" by blast
    show "(\<exists>b. c # s = t @ b) \<or> (\<exists>a b. s = a @ t @ b)"
    proof (cases a)
      case Nil
      with ab show ?thesis by auto
    next
      case (Cons x a')
      with ab have "s = a' @ t @ b" by simp
      then show ?thesis by blast
    qed
  next
    assume "(\<exists>b. c # s = t @ b) \<or> (\<exists>a b. s = a @ t @ b)"
    then show "\<exists>a b. c # s = a @ t @ b"
    proof
      assume "\<exists>b. c # s = t @ b"
      then obtain b where "c # s = [] @ t @ b" by auto
      then show ?thesis by blast
    next
      assume "\<exists>a b. s = a @ t @ b"
      then obtain a b where "c # s = (c # a) @ t @ b" by auto
      then show ?thesis by blast
    qed
  qed
  with Cons show ?case by (simp add: starts_with_iff)
qed

lemma addNodesLoop_frame:
  "addNodesLoop e fuel i count si st = (x, st') \<Longrightarrow>
     config st' = config st \<and> testResults st' = testResults st \<and> testCalls st' = testCalls st
     \<and> hubIp st' = hubIp st \<and> requiredNodes st' = requiredNodes st"
proof (induction fuel arbitrary: i st)
  case 0
  then show ?case by (auto split: if_splits)
next
  case (Suc fuel)
  show ?case
  proof (cases "js_lt (Fin (int i)) count")
    case False
    with Suc.prems show ?thesis by simp
  next
    case True
    show ?thesis
    proof (cases "createDroplet e (node_named (si + i))")
      case (Inl msg)
      with True Suc.prems show ?thesis by simp
    next
      case (Inr d)
      obtain did dip where d: "d = (did, dip)" by (cases d)
      let ?n = "\<lparr> node_id = did, node_name = node_named (si + i), node_ip = dip,
                     node_maxParticipants = participantsPerNode (config st) \<rparr>"
      let ?st1 = "st\<lparr>nodes := nodes st @ [?n]\<rparr>"
      show ?thesis
      proof (cases "setupNode e ?n")
        case (Inl msg)
        with True Inr d Suc.prems show ?thesis by (auto simp: Let_def)
      next
        case (Inr out)
        with True \<open>createDroplet e (node_named (si + i)) = Inr d\<close> d Suc.prems
        have "addNodesLoop e fuel (i + 1) count si ?st1 = (x, st')"
          by (simp add: Let_def)
        from Suc.IH [OF this] show ?thesis by simp
      qed
    qed
  qed
qed

lemma addNodes_frame:
  "addNodes e fuel count st = (x, st') \<Longrightarrow>
     config st' = config st \<and> testResults st' = testResults st \<and> testCalls st' = testCalls st
     \<and> hubIp st' = hubIp st \<and> requiredNodes st' = requiredNodes st"
  unfolding addNodes_def by (rule addNodesLoop_frame)

lemma addNodesLoop_infinite:
  "addNodesLoop e fuel i PosInfinity si st = (x, st') \<Longrightarrow> x \<noteq> Normal"
proof (induction fuel arbitrary: i st)
  case 0
  then show ?case by auto
next
  case (Suc fuel)
  then show ?case
    by (auto simp: Let_def split: sum.splits prod.splits)
qed

text \<open>One iteration of the test loop, by cases.\<close>

lemma testLoop_Suc_cases:
  assumes "testLoop e (Suc fuel) p cn st = (x, st')"
  obtains
    (exit) "\<not> p \<le> maxParticipants (config st)" "x = Normal" "st' = st"
  | (scaling_failed) "p \<le> maxParticipants (config st)"
      "js_lt cn (math_ceil_div p (participantsPerNode (config st)))"
      "addNodes e fuel (js_sub (math_ceil_div p (participantsPerNode (config st))) cn) st = (x, st')"
      "x \<noteq> Normal"
  | (tested) st1 cn1 where "p \<le> maxParticipants (config st)"
      "(js_lt cn (math_ceil_div p (participantsPerNode (config st)))
          \<and> addNodes e fuel (js_sub (math_ceil_div p (participantsPerNode (config st))) cn) st = (Normal, st1)
          \<and> cn1 = math_ceil_div p (participantsPerNode (config st)))
       \<or> (\<not> js_lt cn (math_ceil_div p (participantsPerNode (config st))) \<and> st1 = st \<and> cn1 = cn)"
      "(\<not> success (runSingleTest e st1 p) \<and> x = Normal
          \<and> st' = st1\<lparr>testResults := testResults st1 @ [runSingleTest e st1 p],
                       testCalls := testCalls st1 @ [(p, nodes st1)]\<rparr>)
       \<or> (success (runSingleTest e st1 p)
          \<and> testLoop e fuel (p + incrementStep (config st)) cn1
               (st1\<lparr>testResults := testResults st1 @ [runSingleTest e st1 p],
                    testCalls := testCalls st1 @ [(p, nodes st1)]\<rparr>) = (x, st'))"
proof (cases "p \<le> maxParticipants (config st)")
  case False
  with assms have "x = Normal" "st' = st" by simp_all
  with False show ?thesis by (rule exit)
next
  case le: True
  let ?req = "math_ceil_div p (participantsPerNode (config st))"
  let ?push = "\<lambda>s1. s1\<lparr>testResults := testResults s1 @ [runSingleTest e s1 p],
                       testCalls := testCalls s1 @ [(p, nodes s1)]\<rparr>"
  have body: "\<And>s1 c1. (if \<not> success (runSingleTest e s1 p) then (Normal, ?push s1)
                  else testLoop e fuel (p + incrementStep (config st)) c1 (?push s1)) = (x, st')
      \<Longrightarrow> (\<not> success (runSingleTest e s1 p) \<and> x = Normal \<and> st' = ?push s1)
       \<or> (success (runSingleTest e s1 p)
          \<and> testLoop e fuel (p + incrementStep (config st)) c1 (?push s1) = (x, st'))"
    by (auto split: if_splits)
  show ?thesis
  proof (cases "js_lt cn ?req")
    case False
    with le assms have "(if \<not> success (runSingleTest e st p) then (Normal, ?push st)
                  else testLoop e fuel (p + incrementStep (config st)) cn (?push st)) = (x, st')"
      by (simp add: Let_def)
    from body [OF this] False le show ?thesis
      by (intro tested [of st cn]) simp_all
  next
    case lt: True
    obtain y sa where a: "addNodes e fuel (js_sub ?req cn) st = (y, sa)"
      by (cases "addNodes e fuel (js_sub ?req cn) st")
    show ?thesis
    proof (cases "y = Normal")
      case True
      with le lt a assms have "(if \<not> success (runSingleTest e sa p) then (Normal, ?push sa)
                  else testLoop e fuel (p + incrementStep (config st)) ?req (?push sa)) = (x, st')"
        by (simp add: Let_def)
      from body [OF this] True a lt le show ?thesis
        by (intro tested [of sa ?req]) simp_all
    next
      case False
      with le lt a assms have "x = y \<and> st' = sa"
        by (cases y) (simp_all add: Let_def)
      with le lt a False show ?thesis
        by (intro scaling_failed) simp_all
    qed
  qed
qed

lemma math_ceil_div_real:
  "b \<noteq> 0 \<Longrightarrow> math_ceil_div a b = Fin \<lceil>real_of_int a / real_of_int b\<rceil>"
proof -
  assume b: "b \<noteq> 0"
  have "\<lceil>real_of_int a / real_of_int b\<rceil> = - \<lfloor>- (real_of_int a / real_of_int b)\<rfloor>"
    by (simp add: ceiling_def)
  also have "- (real_of_int a / real_of_int b) = real_of_int (- a) / real_of_int b"
    by simp
  also have "\<lfloor>real_of_int (- a) / real_of_int b\<rfloor> = (- a) div b"
    by (rule floor_divide_of_int_eq)
  finally show ?thesis using b by (simp add: math_ceil_div_def)
qed

lemma runSingleTest_participants: "participants (runSingleTest e st p) = p"
  by (simp add: runSingleTest_def Let_def split: sum.splits)

lemma runSingleTest_index:
  "length (testResults s) = length (testResults s') \<Longrightarrow> runSingleTest e s p = runSingleTest e s' p"
  by (simp add: runSingleTest_def)

lemma tested_state:
  assumes "(js_lt cn req \<and> addNodes e fuel (js_sub req cn) st = (Normal, st1) \<and> cn1 = req)
       \<or> (\<not> js_lt cn req \<and> st1 = st \<and> cn1 = cn)"
  shows "config st1 = config st \<and> testResults st1 = testResults st \<and> testCalls st1 = testCalls st
     \<and> hubIp st1 = hubIp st \<and> requiredNodes st1 = requiredNodes st"
  using assms addNodes_frame [of e fuel "js_sub req cn" st Normal st1] by auto

lemma testLoop_frame:
  "testLoop e fuel p cn st = (x, st') \<Longrightarrow>
     config st' = config st \<and> hubIp st' = hubIp st \<and> requiredNodes st' = requiredNodes st"
proof (induction fuel arbitrary: p cn st)
  case 0
  then show ?case by (auto split: if_splits)
next
  case (Suc fuel)
  from Suc.prems show ?case
  proof (cases rule: testLoop_Suc_cases)
    case exit
    then show ?thesis by simp
  next
    case scaling_failed
    then show ?thesis using addNodes_frame by blast
  next
    case (tested st1 cn1)
    note fr = tested_state [OF tested(2)]
    from tested(3) show ?thesis
    proof
      assume "\<not> success (runSingleTest e st1 p) \<and> x = Normal
          \<and> st' = st1\<lparr>testResults := testResults st1 @ [runSingleTest e st1 p],
                       testCalls := testCalls st1 @ [(p, nodes st1)]\<rparr>"
      with fr show ?thesis by simp
    next
      assume "success (runSingleTest e st1 p)
          \<and> testLoop e fuel (p + incrementStep (config st)) cn1
               (st1\<lparr>testResults := testResults st1 @ [runSingleTest e st1 p],
                    testCalls := testCalls st1 @ [(p, nodes st1)]\<rparr>) = (x, st')"
      then have "testLoop e fuel (p + incrementStep (config st)) cn1
               (st1\<lparr>testResults := testResults st1 @ [runSingleTest e st1 p],
                    testCalls := testCalls st1 @ [(p, nodes st1)]\<rparr>) = (x, st')" ..
      from Suc.IH [OF this] fr show ?thesis by simp
    qed
  qed
qed

text \<open>The loads of the results that the loop appends.\<close>

lemma testLoop_loads:
  "testLoop e fuel p cn st = (x, st') \<Longrightarrow>
     \<exists>n. map participants (testResults st') =
            map participants (testResults st) @ map (\<lambda>k. p + int k * incrementStep (config st)) [0..<n]
        \<and> (\<forall>k<n. p + int k * incrementStep (config st) \<le> maxParticipants (config st))"
proof (induction fuel arbitrary: p cn st)
  case 0
  then have "st' = st" by (auto split: if_splits)
  then have "map participants (testResults st') =
            map participants (testResults st) @ map (\<lambda>k. p + int k * incrementStep (config st)) [0..<0]
        \<and> (\<forall>k<0. p + int k * incrementStep (config st) \<le> maxParticipants (config st))"
    by simp
  then show ?case by blast
next
  case (Suc fuel)
  let ?inc = "incrementStep (config st)"
  let ?P = "\<lambda>n. map participants (testResults st') =
            map participants (testResults st) @ map (\<lambda>k. p + int k * ?inc) [0..<n]
        \<and> (\<forall>k<n. p + int k * ?inc \<le> maxParticipants (config st))"
  from Suc.prems show ?case
  proof (cases rule: testLoop_Suc_cases)
    case exit
    then have "?P 0" by simp
    then show ?thesis by blast
  next
    case scaling_failed
    with addNodes_frame [OF scaling_failed(3)] have "?P 0" by simp
    then show ?thesis by blast
  next
    case (tested st1 cn1)
    note fr = tested_state [OF tested(2)]
    let ?st2 = "st1\<lparr>testResults := testResults st1 @ [runSingleTest e st1 p],
                       testCalls := testCalls st1 @ [(p, nodes st1)]\<rparr>"
    from tested(3) show ?thesis
    proof
      assume "\<not> success (runSingleTest e st1 p) \<and> x = Normal \<and> st' = ?st2"
      with fr tested(1) have "?P 1"
        by (simp add: runSingleTest_participants)
      then show ?thesis by blast
    next
      assume "success (runSingleTest e st1 p) \<and> testLoop e fuel (p + ?inc) cn1 ?st2 = (x, st')"
      then have "testLoop e fuel (p + ?inc) cn1 ?st2 = (x, st')" ..
      from Suc.IH [OF this] fr obtain n where
        n: "map participants (testResults st') =
              (map participants (testResults st) @ [p]) @ map (\<lambda>k. p + ?inc + int k * ?inc) [0..<n]"
           "\<forall>k<n. p + ?inc + int k * ?inc \<le> maxParticipants (config st)"
        by (auto simp: runSingleTest_participants)
      have m: "map (\<lambda>k. p + int k * ?inc) [0..<Suc n] = p # map (\<lambda>k. p + ?inc + int k * ?inc) [0..<n]"
        by (simp add: map_upt_Suc algebra_simps del: upt_Suc)
      have "\<forall>k<Suc n. p + int k * ?inc \<le> maxParticipants (config st)"
      proof (intro allI impI)
        fix k assume "k < Suc n"
        show "p + int k * ?inc \<le> maxParticipants (config st)"
        proof (cases k)
          case 0
          with tested(1) show ?thesis by simp
        next
          case (Suc j)
          with \<open>k < Suc n\<close> n(2) have "p + ?inc + int j * ?inc \<le> maxParticipants (config st)" by simp
          with Suc show ?thesis by (simp add: algebra_simps)
        qed
      qed
      with n(1) m have "?P (Suc n)" by simp
      then show ?thesis by blast
    qed
  qed
qed

text \<open>Only the last result that the loop appends can be a failure, and after a failure
  the loop has ended.\<close>

lemma testLoop_stops:
  "testLoop e fuel p cn st = (x, st') \<Longrightarrow>
     \<exists>new. testResults st' = testResults st @ new
        \<and> (\<forall>i. Suc i < length new \<longrightarrow> success (new ! i))
        \<and> ((\<exists>r\<in>set new. \<not> success r) \<longrightarrow> x = Normal)"
proof (induction fuel arbitrary: p cn st)
  case 0
  then have "testResults st' = testResults st @ []" by (auto split: if_splits)
  then show ?case by force
next
  case (Suc fuel)
  from Suc.prems show ?case
  proof (cases rule: testLoop_Suc_cases)
    case exit
    then have "testResults st' = testResults st @ []" by simp
    then show ?thesis by force
  next
    case scaling_failed
    with addNodes_frame [OF scaling_failed(3)] have "testResults st' = testResults st @ []" by simp
    then show ?thesis by force
  next
    case (tested st1 cn1)
    note fr = tested_state [OF tested(2)]
    let ?r = "runSingleTest e st1 p"
    let ?st2 = "st1\<lparr>testResults := testResults st1 @ [?r],
                       testCalls := testCalls st1 @ [(p, nodes st1)]\<rparr>"
    from tested(3) show ?thesis
    proof
      assume "\<not> success ?r \<and> x = Normal \<and> st' = ?st2"
      with fr have "testResults st' = testResults st @ [?r]" "x = Normal" by simp_all
      then show ?thesis by force
    next
      assume a: "success ?r \<and> testLoop e fuel (p + incrementStep (config st)) cn1 ?st2 = (x, st')"
      then have "testLoop e fuel (p + incrementStep (config st)) cn1 ?st2 = (x, st')" ..
      from Suc.IH [OF this] fr obtain new where
        new: "testResults st' = testResults st @ (?r # new)"
          "\<forall>i. Suc i < length new \<longrightarrow> success (new ! i)"
          "(\<exists>r\<in>set new. \<not> success r) \<longrightarrow> x = Normal"
        by auto
      have "\<forall>i. Suc i < length (?r # new) \<longrightarrow> success ((?r # new) ! i)"
      proof (intro allI impI)
        fix i assume "Suc i < length (?r # new)"
        with a new(2) show "success ((?r # new) ! i)" by (cases i) simp_all
      qed
      moreover from a new(3) have "(\<exists>r\<in>set (?r # new). \<not> success r) \<longrightarrow> x = Normal" by auto
      ultimately show ?thesis using new(1) by blast
    qed
  qed
qed

text \<open>Every result that the loop appends is what \<open>runSingleTest\<close> returned for its
  load when the log had the length of its index; and the call log grows with it.\<close>

lemma testLoop_results:
  "testLoop e fuel p cn st = (x, st') \<Longrightarrow>
     \<exists>new. testResults st' = testResults st @ new
        \<and> (\<forall>k<length new. new ! k =
              runSingleTest e (st\<lparr>testResults := testResults st @ take k new\<rparr>) (participants (new ! k)))
        \<and> map fst (testCalls st') = map fst (testCalls st) @ map participants new"
proof (induction fuel arbitrary: p cn st)
  case 0
  then have "testResults st' = testResults st @ [] \<and> testCalls st' = testCalls st" by (auto split: if_splits)
  then show ?case by force
next
  case (Suc fuel)
  from Suc.prems show ?case
  proof (cases rule: testLoop_Suc_cases)
    case exit
    then have "testResults st' = testResults st @ [] \<and> testCalls st' = testCalls st" by simp
    then show ?thesis by force
  next
    case scaling_failed
    with addNodes_frame [OF scaling_failed(3)]
    have "testResults st' = testResults st @ [] \<and> testCalls st' = testCalls st" by simp
    then show ?thesis by force
  next
    case (tested st1 cn1)
    note fr = tested_state [OF tested(2)]
    let ?r = "runSingleTest e st1 p"
    let ?st2 = "st1\<lparr>testResults := testResults st1 @ [?r],
                       testCalls := testCalls st1 @ [(p, nodes st1)]\<rparr>"
    have r: "?r = runSingleTest e (st\<lparr>testResults := testResults st @ []\<rparr>) (participants ?r)"
      using fr by (simp add: runSingleTest_participants runSingleTest_index [of st1 st])
    from tested(3) show ?thesis
    proof
      assume "\<not> success ?r \<and> x = Normal \<and> st' = ?st2"
      with fr have "testResults st' = testResults st @ [?r]"
        "map fst (testCalls st') = map fst (testCalls st) @ map participants [?r]"
        by (simp_all add: runSingleTest_participants)
      moreover have "\<forall>k<length [?r]. [?r] ! k =
              runSingleTest e (st\<lparr>testResults := testResults st @ take k [?r]\<rparr>) (participants ([?r] ! k))"
        using r by simp
      ultimately show ?thesis by blast
    next
      assume "success ?r \<and> testLoop e fuel (p + incrementStep (config st)) cn1 ?st2 = (x, st')"
      then have "testLoop e fuel (p + incrementStep (config st)) cn1 ?st2 = (x, st')" ..
      from Suc.IH [OF this] fr obtain new where
        new: "testResults st' = testResults st @ (?r # new)"
          "\<forall>k<length new. new ! k =
              runSingleTest e (?st2\<lparr>testResults := testResults ?st2 @ take k new\<rparr>) (participants (new ! k))"
          "map fst (testCalls st') = map fst (testCalls st) @ map participants (?r # new)"
        by (auto simp: runSingleTest_participants)
      have "\<forall>k<length (?r # new). (?r # new) ! k =
              runSingleTest e (st\<lparr>testResults := testResults st @ take k (?r # new)\<rparr>)
                (participants ((?r # new) ! k))"
      proof (intro allI impI)
        fix k assume k: "k < length (?r # new)"
        show "(?r # new) ! k =
              runSingleTest e (st\<lparr>testResults := testResults st @ take k (?r # new)\<rparr>)
                (participants ((?r # new) ! k))"
        proof (cases k)
          case 0
          with r show ?thesis by simp
        next
          case (Suc j)
          with k have "j < length new" by simp
          with new(2) have "new ! j =
              runSingleTest e (?st2\<lparr>testResults := testResults ?st2 @ take j new\<rparr>) (participants (new ! j))"
            by blast
          also have "\<dots> = runSingleTest e (st\<lparr>testResults := testResults st @ take (Suc j) (?r # new)\<rparr>)
                (participants (new ! j))"
            using fr by (intro runSingleTest_index) simp
          finally show ?thesis using Suc by simp
        qed
      qed
      with new(1,3) show ?thesis by blast
    qed
  qed
qed

lemma provisionLoop_frame:
  "provisionLoop e fuel i initialNodes st = (x, st') \<Longrightarrow>
     config st' = config st \<and> testResults st' = testResults st \<and> testCalls st' = testCalls st
     \<and> hubIp st' = hubIp st \<and> requiredNodes st' = requiredNodes st"
proof (induction fuel arbitrary: i st)
  case 0
  then show ?case by (auto split: if_splits)
next
  case (Suc fuel)
  show ?case
  proof (cases "js_le (Fin (int i)) initialNodes")
    case False
    with Suc.prems show ?thesis by simp
  next
    case True
    show ?thesis
    proof (cases "createDroplet e (node_named i)")
      case (Inl msg)
      with True Suc.prems show ?thesis by simp
    next
      case (Inr d)
      obtain did dip where d: "d = (did, dip)" by (cases d)
      let ?st1 = "st\<lparr>nodes := nodes st @
                  [\<lparr> node_id = did, node_name = node_named i, node_ip = dip,
                     node_maxParticipants = participantsPerNode (config st) \<rparr>]\<rparr>"
      from True Inr d Suc.prems have "provisionLoop e fuel (i + 1) initialNodes ?st1 = (x, st')"
        by simp
      from Suc.IH [OF this] show ?thesis by simp
    qed
  qed
qed

lemma provisionInfrastructure_frame:
  assumes "provisionInfrastructure e fuel st = (x, st')"
  shows "config st' = config st \<and> testResults st' = testResults st \<and> testCalls st' = testCalls st"
    and "x = Normal \<Longrightarrow> \<exists>hid. createDroplet e ''jitsi-hub'' = Inr (hid, the (hubIp st'))"
    and "createDroplet e ''jitsi-hub'' = Inr (hid, hip) \<Longrightarrow> hubIp st' = Some hip"
proof -
  show "config st' = config st \<and> testResults st' = testResults st \<and> testCalls st' = testCalls st"
  proof (cases "createDroplet e ''jitsi-hub''")
    case (Inl msg)
    with assms show ?thesis by (simp add: provisionInfrastructure_def)
  next
    case (Inr d)
    obtain a b where "d = (a, b)" by (cases d)
    with Inr assms provisionLoop_frame [of e fuel 1 _ "st\<lparr>hubIp := Some b\<rparr>" x st']
    show ?thesis by (simp add: provisionInfrastructure_def Let_def)
  qed
  show "\<exists>hid. createDroplet e ''jitsi-hub'' = Inr (hid, the (hubIp st'))" if "x = Normal"
  proof (cases "createDroplet e ''jitsi-hub''")
    case (Inl msg)
    with assms that show ?thesis by (simp add: provisionInfrastructure_def)
  next
    case (Inr d)
    obtain a b where "d = (a, b)" by (cases d)
    with Inr assms provisionLoop_frame [of e fuel 1 _ "st\<lparr>hubIp := Some b\<rparr>" x st']
    show ?thesis by (simp add: provisionInfrastructure_def Let_def)
  qed
  show "hubIp st' = Some hip" if "createDroplet e ''jitsi-hub'' = Inr (hid, hip)"
    using that assms provisionLoop_frame [of e fuel 1 _ "st\<lparr>hubIp := Some hip\<rparr>" x st']
    by (simp add: provisionInfrastructure_def Let_def)
qed

lemma runIncrementalTests_frame:
  "runIncrementalTests e fuel st = (x, st') \<Longrightarrow> config st' = config st \<and> hubIp st' = hubIp st"
  unfolding runIncrementalTests_def using testLoop_frame by blast

text \<open>How a campaign ends: either the test loop was never entered, or the final state
  is the one the test loop ended in.\<close>

lemma runCompleteTest_cases:
  assumes "runCompleteTest e fuel s0 = (c, st, d)"
  obtains
    (not_tested) "testResults st = testResults s0" "testCalls st = testCalls s0" "config st = config s0"
  | (tested) x st2 where "runIncrementalTests e fuel st2 = (x, st)" "config st2 = config s0"
      "testResults st2 = testResults s0" "testCalls st2 = testCalls s0"
      "c = (case x of OutOfFuel \<Rightarrow> Unfinished | Threw m \<Rightarrow> Aborted m
            | Normal \<Rightarrow> (case report_write e of None \<Rightarrow> Reported (build_report st) | Some m \<Rightarrow> Aborted m))"
proof -
  let ?s1 = "calculateInfrastructure s0"
  have s1: "config ?s1 = config s0" "testResults ?s1 = testResults s0" "testCalls ?s1 = testCalls s0"
    by (simp_all add: calculateInfrastructure_def)
  obtain y s2 where p: "provisionInfrastructure e fuel ?s1 = (y, s2)"
    by (cases "provisionInfrastructure e fuel ?s1")
  note fr = provisionInfrastructure_frame(1) [OF p]
  show ?thesis
  proof (cases "y = Normal \<and> setupInfrastructure e s2 = Normal")
    case False
    with assms p have "st = s2"
      by (cases y; cases "setupInfrastructure e s2") (auto simp: runCompleteTest_def Let_def)
    with fr s1 show ?thesis by (intro not_tested) simp_all
  next
    case True
    obtain x s3 where l: "runIncrementalTests e fuel s2 = (x, s3)"
      by (cases "runIncrementalTests e fuel s2")
    from True p l assms have eq: "s3 = st"
      by (cases x) (auto simp: runCompleteTest_def Let_def generateFinalReport_def split: option.splits)
    from True p l assms
    have "c = (case x of OutOfFuel \<Rightarrow> Unfinished | Threw m \<Rightarrow> Aborted m
            | Normal \<Rightarrow> (case report_write e of None \<Rightarrow> Reported (build_report s3) | Some m \<Rightarrow> Aborted m))"
      by (cases x) (auto simp: runCompleteTest_def Let_def generateFinalReport_def split: option.splits)
    then have c: "c = (case x of OutOfFuel \<Rightarrow> Unfinished | Threw m \<Rightarrow> Aborted m
            | Normal \<Rightarrow> (case report_write e of None \<Rightarrow> Reported (build_report st) | Some m \<Rightarrow> Aborted m))"
      unfolding eq .
    from l have l': "runIncrementalTests e fuel s2 = (x, st)" unfolding eq .
    from l' fr s1 c show ?thesis by (intro tested [of s2 x]) simp_all
  qed
qed

lemma runCompleteTest_hub:
  assumes "createDroplet e ''jitsi-hub'' = Inr (hid, hip)"
  shows "hubIp (fst (snd (runCompleteTest e fuel s0))) = Some hip"
proof -
  let ?s1 = "calculateInfrastructure s0"
  obtain y s2 where p: "provisionInfrastructure e fuel ?s1 = (y, s2)"
    by (cases "provisionInfrastructure e fuel ?s1")
  note h = provisionInfrastructure_frame(3) [OF p assms]
  obtain x s3 where l: "runIncrementalTests e fuel s2 = (x, s3)"
    by (cases "runIncrementalTests e fuel s2")
  with h runIncrementalTests_frame [OF l] have "hubIp s3 = Some hip" by simp
  with h p l show ?thesis
    by (cases y; cases "setupInfrastructure e s2"; cases x)
       (auto simp: runCompleteTest_def Let_def generateFinalReport_def split: option.splits)
qed

lemma durationMatch_first:
  "durationMatch output = (case total_time_tokens output of [] \<Rightarrow> None | t # ts \<Rightarrow> Some t)"
  by (induction "output") (auto split: option.splits list.splits)

lemma math_max_0_Max: "math_max_0 xs = Max (insert 0 (set xs))"
proof (induction xs)
  case Nil
  show ?case by (simp add: math_max_0_def)
next
  case (Cons x xs)
  have "math_max_0 (x # xs) = max x (math_max_0 xs)"
    by (simp add: math_max_0_def)
  also have "\<dots> = max x (Max (insert 0 (set xs)))"
    by (simp only: Cons.IH)
  also have "\<dots> = Max (insert x (insert 0 (set xs)))"
    by (rule Max_insert [symmetric]) simp_all
  finally show ?case by (simp add: insert_commute)
qed

lemma floor_08_real: "floor_08 m = \<lfloor>0.8 * real_of_int m\<rfloor>"
proof -
  have "0.8 * real_of_int m = real_of_int (4 * m) / real_of_int 5" by simp
  then show ?thesis
    unfolding floor_08_def by (simp only: floor_divide_of_int_eq)
qed


text \<open>The configuration built at startup has no setting equal to zero.\<close>

lemma startup_config_nonzero:
  "maxParticipants (startup_config m i c a) \<noteq> 0
   \<and> incrementStep (startup_config m i c a) \<noteq> 0
   \<and> participantsPerNode (startup_config m i c a) \<noteq> 0"
  by (simp add: startup_config_def or_default_def split: option.splits)

subsection \<open>Where a fatal error comes from\<close>







subsection \<open>Enough fuel\<close>









subsection \<open>What scaling adds to the registry\<close>






subsection \<open>How the loop and the campaign end\<close>




subsection \<open>The double-precision success rate\<close>

lemma round_half_even_error:
  assumes "0 < b"
  shows "\<bar>real (round_half_even a b) - real a / real b\<bar> \<le> 1 / 2"
proof -
  let ?q = "a div b" and ?r = "a mod b"
  have a: "real a = real ?q * real b + real ?r"
    by (metis div_mult_mod_eq of_nat_add of_nat_mult)
  have rb: "?r < b" using assms by simp
  have quot: "real a / real b = real ?q + real ?r / real b"
    using assms by (simp add: a field_simps)
  have low: "\<bar>real ?q - real a / real b\<bar> \<le> 1 / 2" if "2 * ?r \<le> b"
  proof -
    from that have "real (2 * ?r) \<le> real b" by (simp only: of_nat_le_iff)
    then have "real ?r / real b \<le> 1 / 2" using assms by (simp add: field_simps)
    moreover have "0 \<le> real ?r / real b" by simp
    ultimately show ?thesis unfolding quot by simp
  qed
  have high: "\<bar>real (?q + 1) - real a / real b\<bar> \<le> 1 / 2" if "b \<le> 2 * ?r"
  proof -
    from that have "real b \<le> real (2 * ?r)" by (simp only: of_nat_le_iff)
    then have "1 / 2 \<le> real ?r / real b" using assms by (simp add: field_simps)
    moreover from rb have "real ?r / real b \<le> 1" using assms by simp
    ultimately show ?thesis unfolding quot by simp
  qed
  show ?thesis
  proof (cases "2 * ?r < b")
    case True
    then have "round_half_even a b = ?q" by (simp add: round_half_even_def Let_def)
    with low True show ?thesis by simp
  next
    case False
    show ?thesis
    proof (cases "b < 2 * ?r")
      case True
      with False have "round_half_even a b = ?q + 1" by (simp add: round_half_even_def Let_def)
      with high True show ?thesis by simp
    next
      case eq: False
      with False have "round_half_even a b = ?q \<or> round_half_even a b = ?q + 1"
        by (simp add: round_half_even_def Let_def)
      with low high False eq show ?thesis by auto
    qed
  qed
qed

lemma bit_length_lower: "0 < n \<Longrightarrow> 2 ^ (bit_length n - 1) \<le> n"
proof (induction n rule: bit_length.induct)
  case (1 n)
  show ?case
  proof (cases "n div 2 = 0")
    case True
    with "1.prems" have "bit_length n = Suc 0"
      by (simp add: bit_length.simps [of n] bit_length.simps [of 0])
    with "1.prems" show ?thesis by simp
  next
    case False
    with "1.prems" "1.IH" have ih: "2 ^ (bit_length (n div 2) - 1) \<le> n div 2" by simp
    from False have "bit_length (n div 2) = Suc (bit_length (n div 2) - 1)"
      by (simp add: bit_length.simps [of "n div 2"])
    moreover from "1.prems" have "bit_length n - 1 = bit_length (n div 2)"
      by (simp add: bit_length.simps [of n])
    ultimately have "2 ^ (bit_length n - 1) = 2 * 2 ^ (bit_length (n div 2) - 1)"
      by (metis power_Suc)
    also from ih have "\<dots> \<le> 2 * (n div 2)" by simp
    also have "\<dots> \<le> n" by simp
    finally show ?thesis .
  qed
qed

lemma double_quotient_error:
  assumes "0 < t"
  shows "\<bar>real (fst (double_quotient s t)) / 2 ^ snd (double_quotient s t) - real s / real t\<bar>
           \<le> 1 / 2 ^ 53"
proof -
  let ?k = "binary_shift s t + 52"
  let ?m = "round_half_even (s * 2 ^ ?k) t"
  have p: "(2::real) ^ ?k = 2 ^ binary_shift s t * 2 ^ 52" by (simp add: power_add)
  have "(1::real) \<le> 2 ^ binary_shift s t" by simp
  then have k: "(2::real) ^ 52 \<le> 2 ^ ?k" unfolding p by simp
  from round_half_even_error [OF assms, of "s * 2 ^ ?k"]
  have "\<bar>real ?m - real s * 2 ^ ?k / real t\<bar> \<le> 1 / 2" by simp
  then have "\<bar>real ?m - real s * 2 ^ ?k / real t\<bar> / 2 ^ ?k \<le> (1 / 2) / 2 ^ ?k"
    by (intro divide_right_mono) simp_all
  moreover have "\<bar>real ?m - real s * 2 ^ ?k / real t\<bar> / 2 ^ ?k = \<bar>real ?m / 2 ^ ?k - real s / real t\<bar>"
  proof -
    have "\<bar>real ?m - real s * 2 ^ ?k / real t\<bar> / 2 ^ ?k
          = \<bar>(real ?m - real s * 2 ^ ?k / real t) / 2 ^ ?k\<bar>" by simp
    also have "(real ?m - real s * 2 ^ ?k / real t) / 2 ^ ?k = real ?m / 2 ^ ?k - real s / real t"
      by (simp add: field_simps)
    finally show ?thesis .
  qed
  moreover have "(1 / 2) / (2::real) ^ ?k \<le> (1 / 2) / 2 ^ 52"
    using k by (intro divide_left_mono) simp_all
  ultimately have "\<bar>real ?m / 2 ^ ?k - real s / real t\<bar> \<le> (1 / 2) / 2 ^ 52" by linarith
  then show ?thesis by (simp add: double_quotient_def)
qed

lemma double_times_100_error:
  "\<bar>real (fst (double_times_100 d)) - 100 * real (fst d)\<bar> \<le> 100 * real (fst d) / 2 ^ 53"
proof -
  let ?n = "100 * fst d"
  let ?sh = "bit_length ?n - 53"
  let ?m = "round_half_even ?n (2 ^ ?sh) * 2 ^ ?sh"
  have fst: "fst (double_times_100 d) = ?m" by (simp add: double_times_100_def)
  have "\<bar>real ?m - real ?n\<bar> \<le> real ?n / 2 ^ 53"
  proof (cases "?sh = 0")
    case True
    then have "?m = ?n" by (simp add: round_half_even_def)
    then show ?thesis by simp
  next
    case False
    then have bl: "bit_length ?n - 1 = ?sh + 52" by simp
    have bl0: "bit_length 0 = 0" by (simp add: bit_length.simps [of 0])
    from False have "bit_length ?n \<noteq> 0" by simp
    with bl0 have "?n \<noteq> 0" by metis
    then have "2 ^ (bit_length ?n - 1) \<le> ?n" by (intro bit_length_lower) simp
    then have "real ((2::nat) ^ (?sh + 52)) \<le> real ?n" unfolding bl by (simp only: of_nat_le_iff)
    then have low: "(2::real) ^ ?sh * 2 ^ 52 \<le> real ?n" by (simp add: power_add)
    have "(0::nat) < 2 ^ ?sh" by simp
    from round_half_even_error [OF this, of ?n]
    have e: "\<bar>real (round_half_even ?n (2 ^ ?sh)) - real ?n / 2 ^ ?sh\<bar> \<le> 1 / 2" by simp
    have "\<bar>real ?m - real ?n\<bar> = \<bar>real (round_half_even ?n (2 ^ ?sh)) - real ?n / 2 ^ ?sh\<bar> * 2 ^ ?sh"
    proof -
      have "real ?m - real ?n = (real (round_half_even ?n (2 ^ ?sh)) - real ?n / 2 ^ ?sh) * 2 ^ ?sh"
        by (simp add: field_simps)
      then show ?thesis by (simp only: abs_mult) simp
    qed
    also from e have "\<dots> \<le> (1 / 2) * 2 ^ ?sh"
      by (intro mult_right_mono) simp_all
    also have "\<dots> = (2 ^ ?sh * 2 ^ 52) / 2 ^ 53" by simp
    also from low have "\<dots> \<le> real ?n / 2 ^ 53"
      by (intro divide_right_mono) simp_all
    finally show ?thesis .
  qed
  then show ?thesis unfolding fst by simp
qed

lemma toFixed1_tenths_error:
  "\<bar>real (toFixed1_tenths x) - 10 * (real (fst x) / 2 ^ snd x)\<bar> \<le> 1 / 2"
proof -
  let ?a = "20 * fst x + 2 ^ snd x" and ?b = "2 * 2 ^ snd x :: nat"
  have b: "0 < ?b" by simp
  have n: "toFixed1_tenths x = ?a div ?b" by (simp add: toFixed1_tenths_def)
  have fl: "real (?a div ?b) = real_of_int \<lfloor>real ?a / real ?b\<rfloor>"
    by (simp only: floor_divide_of_nat_eq)
  have q: "real ?a / real ?b = 10 * (real (fst x) / 2 ^ snd x) + 1 / 2"
    by (simp add: field_simps)
  have "real_of_int \<lfloor>real ?a / real ?b\<rfloor> \<le> real ?a / real ?b"
    and "real ?a / real ?b < real_of_int \<lfloor>real ?a / real ?b\<rfloor> + 1"
    by linarith+
  then show ?thesis unfolding n fl q by linarith
qed

lemma rate_tenths_error:
  assumes "0 < t" and "s \<le> t"
  shows "\<bar>real (rate_tenths s t) / 10 - 100 * real s / real t\<bar> \<le> 1 / 20 + 1 / 2 ^ 45"
proof (cases "s = 0")
  case True
  then show ?thesis by (simp add: rate_tenths_def toFixed1_tenths_def)
next
  case False
  let ?d = "double_quotient s t"
  let ?x = "double_times_100 ?d"
  let ?k = "snd ?d"
  let ?D = "real (fst ?d) / 2 ^ ?k"
  let ?X = "real (fst ?x) / 2 ^ ?k"
  have sx: "snd ?x = ?k" by (simp add: double_times_100_def)
  from assms have st: "real s / real t \<le> 1" by simp
  from double_quotient_error [OF assms(1), of s]
  have d: "\<bar>?D - real s / real t\<bar> \<le> 1 / 2 ^ 53" .
  with st have D1: "?D \<le> 1 + 1 / 2 ^ 53" by linarith
  have D0: "0 \<le> ?D" by simp
  from double_times_100_error [of ?d]
  have "\<bar>real (fst ?x) - 100 * real (fst ?d)\<bar> / 2 ^ ?k \<le> (100 * real (fst ?d) / 2 ^ 53) / 2 ^ ?k"
    by (intro divide_right_mono) simp_all
  moreover have "\<bar>real (fst ?x) - 100 * real (fst ?d)\<bar> / 2 ^ ?k = \<bar>?X - 100 * ?D\<bar>"
  proof -
    have "\<bar>real (fst ?x) - 100 * real (fst ?d)\<bar> / 2 ^ ?k
          = \<bar>(real (fst ?x) - 100 * real (fst ?d)) / 2 ^ ?k\<bar>" by simp
    also have "(real (fst ?x) - 100 * real (fst ?d)) / 2 ^ ?k = ?X - 100 * ?D"
      by (simp add: field_simps)
    finally show ?thesis .
  qed
  moreover have "(100 * real (fst ?d) / 2 ^ 53) / 2 ^ ?k = 100 * ?D / 2 ^ 53" by simp
  ultimately have x: "\<bar>?X - 100 * ?D\<bar> \<le> 100 * ?D / 2 ^ 53" by simp
  from D1 have "100 * ?D / 2 ^ 53 \<le> 100 * (1 + 1 / 2 ^ 53) / 2 ^ 53"
    by (intro divide_right_mono mult_left_mono) simp_all
  with x have x': "\<bar>?X - 100 * ?D\<bar> \<le> 100 * (1 + 1 / 2 ^ 53) / 2 ^ 53" by linarith
  have "?X - 100 * real s / real t = (?X - 100 * ?D) + 100 * (?D - real s / real t)"
    by simp
  then have "\<bar>?X - 100 * real s / real t\<bar> \<le> \<bar>?X - 100 * ?D\<bar> + \<bar>100 * (?D - real s / real t)\<bar>"
    by (simp only: abs_triangle_ineq)
  moreover have "\<bar>100 * (?D - real s / real t)\<bar> = 100 * \<bar>?D - real s / real t\<bar>"
    by (simp only: abs_mult)
  ultimately have "\<bar>?X - 100 * real s / real t\<bar> \<le> \<bar>?X - 100 * ?D\<bar> + 100 * \<bar>?D - real s / real t\<bar>"
    by simp
  with x' d have "\<bar>?X - 100 * real s / real t\<bar> \<le> 100 * (1 + 1 / 2 ^ 53) / 2 ^ 53 + 100 * (1 / 2 ^ 53)"
    by linarith
  also have "\<dots> \<le> 1 / 2 ^ 45" by simp
  finally have X: "\<bar>?X - 100 * real s / real t\<bar> \<le> 1 / 2 ^ 45" .
  from toFixed1_tenths_error [of ?x] sx
  have "\<bar>real (toFixed1_tenths ?x) - 10 * ?X\<bar> \<le> 1 / 2" by simp
  then have "\<bar>real (toFixed1_tenths ?x) / 10 - ?X\<bar> \<le> 1 / 20" by linarith
  with X have "\<bar>real (toFixed1_tenths ?x) / 10 - 100 * real s / real t\<bar> \<le> 1 / 20 + 1 / 2 ^ 45"
    by linarith
  with False show ?thesis by (simp add: rate_tenths_def)
qed

text \<open>At 23 successes among 80 results the exact percentage 28.75 lies on a rounding
  boundary; the double below it is printed.\<close>

lemma successRate_23_of_80: "successRate_string 23 80 = ''28.7''"
  by (simp add: successRate_string_def rate_tenths_def toFixed1_tenths_def double_times_100_def
        double_quotient_def binary_shift.simps round_half_even_def bit_length.simps Let_def
        decimal.simps digit_char_def)

subsection \<open>Evaluation on the examples\<close>

lemmas eval_defs = runCompleteTest_def new_orchestrator_def example_config_def startup_config_def or_default_def
  env_printing_at_def env_quiet_def env_rejecting_at_def calculateInfrastructure_def math_ceil_div_def
  provisionInfrastructure_def createDroplet_def required_number_def node_named_def setupInfrastructure_def
  setupHub_def setupNode_def setupTorture_def executeRemoteScript_def runIncrementalTests_def addNodes_def
  runSingleTest_def generateFinalReport_def build_report_def cleanup_if_auto_def cleanup_def
  parseTestMetrics_def starts_with_def Let_def negative_capacity_config_def
  scaling_config_def env_node_setup_rejected_def

lemmas rate_eval = successRate_string_def rate_tenths_def toFixed1_tenths_def double_times_100_def
  double_quotient_def binary_shift.simps round_half_even_def bit_length.simps decimal.simps digit_char_def

section \<open>The claims\<close>

text \<open>
  C1. In every campaign the requested loads of the recorded results are the increment,
  twice the increment, three times the increment and so on, none skipped or repeated;
  every one of them is at most the configured maximum; with a positive increment the
  sequence is strictly increasing.
\<close>

theorem requested_loads_are_multiples_of_increment:
  assumes "runCompleteTest e fuel (new_orchestrator cfg) = (c, st, d)"
  shows "map participants (testResults st) =
           map (\<lambda>k. int (Suc k) * incrementStep cfg) [0..<length (testResults st)]
       \<and> (\<forall>r\<in>set (testResults st). participants r \<le> maxParticipants cfg)
       \<and> (0 < incrementStep cfg \<longrightarrow> sorted_wrt (<) (map participants (testResults st)))"
proof -
  let ?inc = "incrementStep cfg"
  have "\<exists>n. map participants (testResults st) = map (\<lambda>k. ?inc + int k * ?inc) [0..<n]
        \<and> (\<forall>k<n. ?inc + int k * ?inc \<le> maxParticipants cfg)"
    using assms
  proof (cases rule: runCompleteTest_cases)
    case not_tested
    then have "map participants (testResults st) = map (\<lambda>k. ?inc + int k * ?inc) [0..<0]
        \<and> (\<forall>k<0. ?inc + int k * ?inc \<le> maxParticipants cfg)"
      by (simp add: new_orchestrator_def)
    then show ?thesis by blast
  next
    case (tested x st2)
    from tested(1) have "testLoop e fuel (incrementStep (config st2)) (Fin (int (length (nodes st2)))) st2 = (x, st)"
      by (simp add: runIncrementalTests_def)
    from testLoop_loads [OF this] tested(2,3) show ?thesis
      by (simp add: new_orchestrator_def)
  qed
  then obtain n where n: "map participants (testResults st) = map (\<lambda>k. ?inc + int k * ?inc) [0..<n]"
    "\<forall>k<n. ?inc + int k * ?inc \<le> maxParticipants cfg"
    by blast
  from n(1) have len: "length (testResults st) = n"
    by (metis length_map length_upt minus_nat.diff_0)
  have f: "(\<lambda>k. ?inc + int k * ?inc) = (\<lambda>k. int (Suc k) * ?inc)"
    by (auto simp: algebra_simps)
  from n(1) have 1: "map participants (testResults st) = map (\<lambda>k. int (Suc k) * ?inc) [0..<length (testResults st)]"
    unfolding len f .
  have 2: "\<forall>r\<in>set (testResults st). participants r \<le> maxParticipants cfg"
  proof
    fix r assume "r \<in> set (testResults st)"
    then have "participants r \<in> set (map participants (testResults st))" by simp
    with n(1) obtain k where "k < n" "participants r = ?inc + int k * ?inc" by auto
    with n(2) show "participants r \<le> maxParticipants cfg" by simp
  qed
  have 3: "sorted_wrt (<) (map participants (testResults st))" if "0 < ?inc"
  proof -
    have "sorted_wrt (\<lambda>a b. int (Suc a) * ?inc < int (Suc b) * ?inc) [0..<length (testResults st)]"
      using that by (intro sorted_wrt_mono_rel [OF _ sorted_wrt_upt]) simp
    then show ?thesis
      by (subst 1) (simp add: sorted_wrt_map)
  qed
  from 1 2 3 show ?thesis by blast
qed

theorem requested_loads_are_multiples_of_increment_witness:
  "(0::int) < incrementStep example_config
   \<and> map participants (testResults (fst (snd (runCompleteTest
        (env_printing_at 150 ''Tests run: 3, FAILURES: 1'') (Suc (Suc (Suc (Suc 0))))
        (new_orchestrator example_config))))) = [50, 100, 150]
   \<and> sorted_wrt (<) [50, 100, 150 :: int]"
proof -
  let ?run = "runCompleteTest (env_printing_at 150 ''Tests run: 3, FAILURES: 1'') (Suc (Suc (Suc (Suc 0))))
        (new_orchestrator example_config)"
  have ev: "map participants (testResults (fst (snd ?run))) = [50, 100, 150]"
    by (simp add: eval_defs)
  have inc: "(0::int) < incrementStep example_config"
    by (simp add: eval_defs)
  have tr: "?run = (fst ?run, fst (snd ?run), snd (snd ?run))" by simp
  from requested_loads_are_multiples_of_increment [OF tr]
  have "0 < incrementStep example_config \<longrightarrow> sorted_wrt (<) (map participants (testResults (fst (snd ?run))))"
    by blast
  with inc ev show ?thesis by simp
qed

text \<open>
  C2. In every campaign a failed result is the last result of the log: nothing is
  appended after it. The campaign has then left the test loop (it is not still
  running), and no test was started without its result being recorded, so the load
  was not advanced to a further test.
\<close>

theorem no_result_after_first_failure:
  assumes "runCompleteTest e fuel (new_orchestrator cfg) = (c, st, d)"
    and "i < length (testResults st)"
    and "\<not> success (testResults st ! i)"
  shows "Suc i = length (testResults st) \<and> c \<noteq> Unfinished
       \<and> map fst (testCalls st) = map participants (testResults st)"
  using assms(1)
proof (cases rule: runCompleteTest_cases)
  case not_tested
  with assms(2) show ?thesis by (simp add: new_orchestrator_def)
next
  case (tested x st2)
  from tested(1) have loop: "testLoop e fuel (incrementStep (config st2)) (Fin (int (length (nodes st2)))) st2 = (x, st)"
    by (simp add: runIncrementalTests_def)
  from testLoop_stops [OF loop] tested(3) have
    a: "\<forall>j. Suc j < length (testResults st) \<longrightarrow> success (testResults st ! j)"
    and b: "(\<exists>r\<in>set (testResults st). \<not> success r) \<longrightarrow> x = Normal"
    by (auto simp: new_orchestrator_def)
  from a assms(2,3) have 1: "Suc i = length (testResults st)"
    by (metis Suc_lessI)
  from assms(2,3) have "\<exists>r\<in>set (testResults st). \<not> success r"
    using nth_mem by blast
  with b tested(5) have 2: "c \<noteq> Unfinished"
    by (auto split: option.splits)
  from testLoop_results [OF loop] tested(3,4) have 3: "map fst (testCalls st) = map participants (testResults st)"
    by (auto simp: new_orchestrator_def)
  from 1 2 3 show ?thesis by blast
qed

theorem no_result_after_first_failure_witness:
  "(2::nat) < length (testResults (fst (snd (runCompleteTest
        (env_printing_at 150 ''Tests run: 3, FAILURES: 1'') (Suc (Suc (Suc (Suc 0))))
        (new_orchestrator example_config)))))
   \<and> \<not> success (testResults (fst (snd (runCompleteTest
        (env_printing_at 150 ''Tests run: 3, FAILURES: 1'') (Suc (Suc (Suc (Suc 0))))
        (new_orchestrator example_config)))) ! 2)
   \<and> length (testResults (fst (snd (runCompleteTest
        (env_printing_at 150 ''Tests run: 3, FAILURES: 1'') (Suc (Suc (Suc (Suc 0))))
        (new_orchestrator example_config))))) = 3
   \<and> fst (runCompleteTest
        (env_printing_at 150 ''Tests run: 3, FAILURES: 1'') (Suc (Suc (Suc (Suc 0))))
        (new_orchestrator example_config)) \<noteq> Unfinished"
proof -
  let ?run = "runCompleteTest (env_printing_at 150 ''Tests run: 3, FAILURES: 1'') (Suc (Suc (Suc (Suc 0))))
        (new_orchestrator example_config)"
  have ev: "map success (testResults (fst (snd ?run))) = [True, True, False]"
    by (simp add: eval_defs)
  then have len: "length (testResults (fst (snd ?run))) = 3"
    by (metis length_map length_Cons list.size(3) numeral_3_eq_3)
  have "success (testResults (fst (snd ?run)) ! 2) = map success (testResults (fst (snd ?run))) ! 2"
    using len by simp
  with ev have f: "\<not> success (testResults (fst (snd ?run)) ! 2)" by simp
  from len have l: "(2::nat) < length (testResults (fst (snd ?run)))" by simp
  have tr: "?run = (fst ?run, fst (snd ?run), snd (snd ?run))" by simp
  from no_result_after_first_failure [OF tr l f]
  have "fst ?run \<noteq> Unfinished" by blast
  with l f len show ?thesis by simp
qed

text \<open>
  C3. For a positive target load and a positive capacity per unit, the required number
  of units is the ceiling of their quotient, both where the planner computes it from
  the maximum load and where the test loop computes it for the current load. With a
  capacity of 80 the loads 50, 100, 150 and 200 require 1, 2, 2 and 3 units.
\<close>

theorem required_units_is_ceiling:
  assumes "0 < maxParticipants (config st)" and "0 < participantsPerNode (config st)" and "0 < load"
  shows "requiredNodes (calculateInfrastructure st) =
           Some (Fin \<lceil>real_of_int (maxParticipants (config st)) / real_of_int (participantsPerNode (config st))\<rceil>)
       \<and> math_ceil_div load (participantsPerNode (config st)) =
           Fin \<lceil>real_of_int load / real_of_int (participantsPerNode (config st))\<rceil>
       \<and> map (\<lambda>l. math_ceil_div l 80) [50, 100, 150, 200] = [Fin 1, Fin 2, Fin 2, Fin 3]"
proof -
  from assms(2) have nz: "participantsPerNode (config st) \<noteq> 0" by simp
  have "map (\<lambda>l. math_ceil_div l 80) [50, 100, 150, 200] = [Fin 1, Fin 2, Fin 2, Fin 3]"
    by (simp add: math_ceil_div_def)
  with math_ceil_div_real [OF nz] show ?thesis
    by (simp add: calculateInfrastructure_def)
qed

theorem required_units_is_ceiling_witness:
  "0 < maxParticipants (config (new_orchestrator example_config))
   \<and> 0 < participantsPerNode (config (new_orchestrator example_config))
   \<and> (0::int) < 150
   \<and> requiredNodes (calculateInfrastructure (new_orchestrator example_config)) = Some (Fin 3)
   \<and> math_ceil_div 150 80 = Fin 2"
proof -
  have mp: "maxParticipants (config (new_orchestrator example_config)) = 200"
    and pn: "participantsPerNode (config (new_orchestrator example_config)) = 80"
    by (simp_all add: eval_defs)
  have h: "0 < maxParticipants (config (new_orchestrator example_config))"
    "0 < participantsPerNode (config (new_orchestrator example_config))" "(0::int) < 150"
    using mp pn by simp_all
  from required_units_is_ceiling [OF h]
  have "requiredNodes (calculateInfrastructure (new_orchestrator example_config)) =
          Some (Fin \<lceil>real_of_int 200 / real_of_int 80\<rceil>)
      \<and> math_ceil_div 150 80 = Fin \<lceil>real_of_int 150 / real_of_int 80\<rceil>"
    unfolding mp pn by blast
  moreover have "\<lceil>real_of_int 200 / real_of_int 80\<rceil> = 3" "\<lceil>real_of_int 150 / real_of_int 80\<rceil> = 2"
    by simp_all
  ultimately show ?thesis using h by simp
qed

text \<open>
  C4, as the code has it. There is no configuration check. A capacity below zero gives
  the planner a required count that is the (non-positive, for a positive load) ceiling
  of the quotient, and a capacity of zero gives an infinity or \<open>NaN\<close>; in both cases
  the campaign goes on to provisioning, and the hub is registered whenever the provider
  creates its droplet.
\<close>

theorem nonpositive_capacity_is_not_rejected:
  assumes "participantsPerNode (config st) \<le> 0"
  shows "(participantsPerNode (config st) < 0 \<longrightarrow>
            requiredNodes (calculateInfrastructure st) =
              Some (Fin \<lceil>real_of_int (maxParticipants (config st)) / real_of_int (participantsPerNode (config st))\<rceil>))
       \<and> (participantsPerNode (config st) = 0 \<longrightarrow>
            requiredNodes (calculateInfrastructure st) =
              Some (if 0 < maxParticipants (config st) then PosInfinity
                    else if maxParticipants (config st) < 0 then NegInfinity else NaN))
       \<and> (\<forall>hid hip. createDroplet e ''jitsi-hub'' = Inr (hid, hip) \<longrightarrow>
            hubIp (fst (snd (runCompleteTest e fuel st))) = Some hip)"
proof -
  have "requiredNodes (calculateInfrastructure st) =
          Some (Fin \<lceil>real_of_int (maxParticipants (config st)) / real_of_int (participantsPerNode (config st))\<rceil>)"
    if "participantsPerNode (config st) < 0"
    using that math_ceil_div_real [of "participantsPerNode (config st)" "maxParticipants (config st)"]
    by (simp add: calculateInfrastructure_def)
  moreover have "requiredNodes (calculateInfrastructure st) =
              Some (if 0 < maxParticipants (config st) then PosInfinity
                    else if maxParticipants (config st) < 0 then NegInfinity else NaN)"
    if "participantsPerNode (config st) = 0"
    using that by (simp add: calculateInfrastructure_def math_ceil_div_def)
  ultimately show ?thesis using runCompleteTest_hub by blast
qed

theorem nonpositive_capacity_is_not_rejected_witness:
  "participantsPerNode (config (new_orchestrator negative_capacity_config)) \<le> 0
   \<and> requiredNodes (calculateInfrastructure (new_orchestrator negative_capacity_config)) = Some (Fin 0)
   \<and> hubIp (fst (snd (runCompleteTest env_quiet (Suc (Suc 0)) (new_orchestrator negative_capacity_config))))
       = Some ''10.0.0.1''"
proof -
  have h: "participantsPerNode (config (new_orchestrator negative_capacity_config)) \<le> 0"
    by (simp add: eval_defs)
  have c: "createDroplet env_quiet ''jitsi-hub'' = Inr (1, ''10.0.0.1'')"
    by (simp add: eval_defs)
  have r: "requiredNodes (calculateInfrastructure (new_orchestrator negative_capacity_config)) = Some (Fin 0)"
    by (simp add: eval_defs)
  from nonpositive_capacity_is_not_rejected [OF h, of env_quiet "Suc (Suc 0)"] c
  have "hubIp (fst (snd (runCompleteTest env_quiet (Suc (Suc 0)) (new_orchestrator negative_capacity_config))))
       = Some ''10.0.0.1''"
    by blast
  with h r show ?thesis by simp
qed

text \<open>
  C4 as stated fails: with a capacity of \<open>-80\<close> the campaign is not aborted. The hub
  is provisioned, a test at load 50 runs and is recorded, and the campaign ends with a
  report.
\<close>

theorem negative_capacity_counterexample:
  "participantsPerNode negative_capacity_config \<le> 0
   \<and> hubIp (fst (snd (runCompleteTest env_quiet (Suc (Suc 0)) (new_orchestrator negative_capacity_config))))
       = Some ''10.0.0.1''
   \<and> map participants (testResults (fst (snd (runCompleteTest env_quiet (Suc (Suc 0))
        (new_orchestrator negative_capacity_config))))) = [50]
   \<and> fst (runCompleteTest env_quiet (Suc (Suc 0)) (new_orchestrator negative_capacity_config))
       = Reported (build_report (fst (snd (runCompleteTest env_quiet (Suc (Suc 0))
           (new_orchestrator negative_capacity_config)))))"
  by (simp add: eval_defs)



text \<open>
  C6, as the code has it. In the report, \<open>maxSuccessfulParticipants\<close> is the greatest
  of 0 and the loads of the successful results: the greatest successful load when some
  successful load is not negative, and 0 (never absent) when no result succeeded.
  \<open>recommendedCapacity\<close> is the floor of 0.8 times that number, and so is 0 (never
  absent) when no result succeeded.
\<close>

theorem report_max_successful_load:
  assumes "generateFinalReport e st = Inr r"
  shows "maxSuccessfulParticipants (summary r) =
           Max (insert 0 (participants ` {x \<in> set (testResults st). success x}))
       \<and> recommendedCapacity (summary r) = \<lfloor>0.8 * real_of_int (maxSuccessfulParticipants (summary r))\<rfloor>
       \<and> ((\<exists>x\<in>set (testResults st). success x \<and> 0 \<le> participants x) \<longrightarrow>
             maxSuccessfulParticipants (summary r) =
               Max (participants ` {x \<in> set (testResults st). success x}))
       \<and> ((\<forall>x\<in>set (testResults st). \<not> success x) \<longrightarrow>
             maxSuccessfulParticipants (summary r) = 0 \<and> recommendedCapacity (summary r) = 0)"
proof -
  let ?S = "participants ` {x \<in> set (testResults st). success x}"
  from assms have r: "r = build_report st"
    by (auto simp: generateFinalReport_def split: option.splits)
  have 1: "maxSuccessfulParticipants (summary r) = Max (insert 0 ?S)"
    unfolding r by (simp add: build_report_def Let_def math_max_0_Max)
  have 2: "recommendedCapacity (summary r) = \<lfloor>0.8 * real_of_int (maxSuccessfulParticipants (summary r))\<rfloor>"
    unfolding r by (simp add: build_report_def Let_def floor_08_real)
  have 3: "maxSuccessfulParticipants (summary r) = Max ?S"
    if "\<exists>x\<in>set (testResults st). success x \<and> 0 \<le> participants x"
  proof -
    from that obtain x where x: "x \<in> set (testResults st)" "success x" "0 \<le> participants x" by blast
    then have "participants x \<in> ?S" by blast
    then have "?S \<noteq> {}" and "participants x \<le> Max ?S" by auto
    with x(3) have "Max (insert 0 ?S) = Max ?S" by (simp add: max_def)
    with 1 show ?thesis by simp
  qed
  have 4: "maxSuccessfulParticipants (summary r) = 0 \<and> recommendedCapacity (summary r) = 0"
    if "\<forall>x\<in>set (testResults st). \<not> success x"
  proof -
    from that have "?S = {}" by blast
    with 1 have "maxSuccessfulParticipants (summary r) = 0" by simp
    with 2 show ?thesis by simp
  qed
  from 1 2 3 4 show ?thesis by blast
qed

theorem report_max_successful_load_witness:
  "generateFinalReport (env_printing_at 150 ''Tests run: 3, FAILURES: 1'')
      (fst (snd (runCompleteTest (env_printing_at 150 ''Tests run: 3, FAILURES: 1'')
         (Suc (Suc (Suc (Suc 0)))) (new_orchestrator example_config))))
    = Inr (build_report (fst (snd (runCompleteTest (env_printing_at 150 ''Tests run: 3, FAILURES: 1'')
         (Suc (Suc (Suc (Suc 0)))) (new_orchestrator example_config)))))
   \<and> maxSuccessfulParticipants (summary (build_report (fst (snd (runCompleteTest
         (env_printing_at 150 ''Tests run: 3, FAILURES: 1'')
         (Suc (Suc (Suc (Suc 0)))) (new_orchestrator example_config)))))) = 100
   \<and> recommendedCapacity (summary (build_report (fst (snd (runCompleteTest
         (env_printing_at 150 ''Tests run: 3, FAILURES: 1'')
         (Suc (Suc (Suc (Suc 0)))) (new_orchestrator example_config)))))) = \<lfloor>0.8 * real_of_int 100\<rfloor>"
proof -
  let ?e = "env_printing_at 150 ''Tests run: 3, FAILURES: 1''"
  let ?st = "fst (snd (runCompleteTest ?e (Suc (Suc (Suc (Suc 0)))) (new_orchestrator example_config)))"
  have h: "generateFinalReport ?e ?st = Inr (build_report ?st)"
    by (simp add: generateFinalReport_def env_printing_at_def env_quiet_def)
  have m: "maxSuccessfulParticipants (summary (build_report ?st)) = 100"
    by (simp add: eval_defs math_max_0_def)
  from report_max_successful_load [OF h]
  have "recommendedCapacity (summary (build_report ?st)) =
          \<lfloor>0.8 * real_of_int (maxSuccessfulParticipants (summary (build_report ?st)))\<rfloor>"
    by blast
  with m have "recommendedCapacity (summary (build_report ?st)) = \<lfloor>0.8 * real_of_int 100\<rfloor>"
    by simp
  with h m show ?thesis by blast
qed

text \<open>
  C6 as stated fails: in a campaign whose only step, at load 50, fails, no result
  succeeded, and the report holds the numbers 0 and 0 where the claim has absent values.
\<close>

theorem max_successful_load_absent_counterexample:
  "map success (testResults (fst (snd (runCompleteTest (env_printing_at 50 ''FAILURES'') (Suc (Suc (Suc (Suc 0))))
      (new_orchestrator example_config))))) = [False]
   \<and> fst (runCompleteTest (env_printing_at 50 ''FAILURES'') (Suc (Suc (Suc (Suc 0)))) (new_orchestrator example_config))
       = Reported (build_report (fst (snd (runCompleteTest (env_printing_at 50 ''FAILURES'') (Suc (Suc (Suc (Suc 0))))
           (new_orchestrator example_config)))))
   \<and> maxSuccessfulParticipants (summary (build_report (fst (snd (runCompleteTest
        (env_printing_at 50 ''FAILURES'') (Suc (Suc (Suc (Suc 0)))) (new_orchestrator example_config)))))) = 0
   \<and> recommendedCapacity (summary (build_report (fst (snd (runCompleteTest
        (env_printing_at 50 ''FAILURES'') (Suc (Suc (Suc (Suc 0)))) (new_orchestrator example_config)))))) = 0"
  by (simp add: eval_defs math_max_0_def floor_08_def)

text \<open>
  C7, as the code has it. For a log that is not empty, \<open>successRate\<close> is a string of
  digits with one fractional digit. It denotes a number of tenths that is within 0.05
  of the percentage of successful results, up to the rounding error of the
  double-precision quotient and product, which is below \<open>2^-45\<close>.
\<close>

theorem report_success_rate:
  assumes "generateFinalReport e st = Inr r" and "testResults st \<noteq> []"
  shows "\<exists>n. successRate (summary r) = decimal (n div 10) @ ''.'' @ decimal (n mod 10)
           \<and> \<bar>real n / 10 - 100 * real (length (filter success (testResults st)))
                                 / real (length (testResults st))\<bar>
               \<le> 1 / 20 + 1 / 2 ^ 45"
proof -
  let ?s = "length (filter success (testResults st))" and ?t = "length (testResults st)"
  from assms(1) have r: "r = build_report st"
    by (auto simp: generateFinalReport_def split: option.splits)
  from assms(2) have t: "0 < ?t" by simp
  have st: "?s \<le> ?t" by simp
  from t have "successRate (summary r) =
      decimal (rate_tenths ?s ?t div 10) @ ''.'' @ decimal (rate_tenths ?s ?t mod 10)"
    unfolding r by (simp add: build_report_def Let_def successRate_string_def)
  with rate_tenths_error [OF t st] show ?thesis by blast
qed

theorem report_success_rate_witness:
  "generateFinalReport (env_printing_at 150 ''Tests run: 3, FAILURES: 1'')
      (fst (snd (runCompleteTest (env_printing_at 150 ''Tests run: 3, FAILURES: 1'')
         (Suc (Suc (Suc (Suc 0)))) (new_orchestrator example_config))))
    = Inr (build_report (fst (snd (runCompleteTest (env_printing_at 150 ''Tests run: 3, FAILURES: 1'')
         (Suc (Suc (Suc (Suc 0)))) (new_orchestrator example_config)))))
   \<and> testResults (fst (snd (runCompleteTest (env_printing_at 150 ''Tests run: 3, FAILURES: 1'')
         (Suc (Suc (Suc (Suc 0)))) (new_orchestrator example_config)))) \<noteq> []
   \<and> successRate (summary (build_report (fst (snd (runCompleteTest
         (env_printing_at 150 ''Tests run: 3, FAILURES: 1'')
         (Suc (Suc (Suc (Suc 0)))) (new_orchestrator example_config)))))) = ''66.7''
   \<and> (\<exists>n. ''66.7'' = decimal (n div 10) @ ''.'' @ decimal (n mod 10)
           \<and> \<bar>real n / 10 - 100 * real (length (filter success (testResults (fst (snd (runCompleteTest
                 (env_printing_at 150 ''Tests run: 3, FAILURES: 1'')
                 (Suc (Suc (Suc (Suc 0)))) (new_orchestrator example_config)))))))
               / real (length (testResults (fst (snd (runCompleteTest
                 (env_printing_at 150 ''Tests run: 3, FAILURES: 1'')
                 (Suc (Suc (Suc (Suc 0)))) (new_orchestrator example_config))))))\<bar>
               \<le> 1 / 20 + 1 / 2 ^ 45)"
proof -
  let ?e = "env_printing_at 150 ''Tests run: 3, FAILURES: 1''"
  let ?st = "fst (snd (runCompleteTest ?e (Suc (Suc (Suc (Suc 0)))) (new_orchestrator example_config)))"
  have h: "generateFinalReport ?e ?st = Inr (build_report ?st)"
    by (simp add: generateFinalReport_def env_printing_at_def env_quiet_def)
  have ne: "testResults ?st \<noteq> []"
    by (simp add: eval_defs)
  have sr: "successRate (summary (build_report ?st)) = ''66.7''"
    by (simp add: eval_defs rate_eval)
  from report_success_rate [OF h ne] sr h ne show ?thesis by simp
qed

text \<open>
  C7 as stated fails: in a campaign with two successful steps and a failed third the
  ratio of the specification is 2/3, and the report holds the string \<open>66.7\<close>, which
  denotes another number.
\<close>

theorem success_rate_is_a_percentage_counterexample:
  "spec_successRate (testResults (fst (snd (runCompleteTest
      (env_printing_at 150 ''Tests run: 3, FAILURES: 1'')
      (Suc (Suc (Suc (Suc 0)))) (new_orchestrator example_config))))) = Some (2 / 3)
   \<and> successRate (summary (build_report (fst (snd (runCompleteTest
      (env_printing_at 150 ''Tests run: 3, FAILURES: 1'')
      (Suc (Suc (Suc (Suc 0)))) (new_orchestrator example_config)))))) = ''66.7''
   \<and> fixed1_value ''66.7'' = 667 / 10
   \<and> Some (fixed1_value (successRate (summary (build_report (fst (snd (runCompleteTest
      (env_printing_at 150 ''Tests run: 3, FAILURES: 1'')
      (Suc (Suc (Suc (Suc 0)))) (new_orchestrator example_config))))))))
       \<noteq> spec_successRate (testResults (fst (snd (runCompleteTest
      (env_printing_at 150 ''Tests run: 3, FAILURES: 1'')
      (Suc (Suc (Suc (Suc 0)))) (new_orchestrator example_config)))))"
proof -
  let ?e = "env_printing_at 150 ''Tests run: 3, FAILURES: 1''"
  let ?st = "fst (snd (runCompleteTest ?e (Suc (Suc (Suc (Suc 0)))) (new_orchestrator example_config)))"
  have sp: "spec_successRate (testResults ?st) = Some (2 / 3)"
    by (simp add: eval_defs spec_successRate_def)
  have sr: "successRate (summary (build_report ?st)) = ''66.7''"
    by (simp add: eval_defs rate_eval)
  have fv: "fixed1_value ''66.7'' = 667 / 10"
    by (simp add: fixed1_value_def parseInt_digits_def digit_value_def)
  from sp sr fv show ?thesis by simp
qed




text \<open>
  C9, as the code has it. The duration metric is the first occurrence of a total-time
  token in the output; when the output has no such token the field is unset. No output
  makes the extraction fail.
\<close>

theorem duration_is_first_total_time:
  "testDuration (parseTestMetrics output) =
     (case total_time_tokens output of [] \<Rightarrow> None | t # ts \<Rightarrow> Some t)"
  by (simp add: parseTestMetrics_def Let_def durationMatch_first)

theorem duration_is_first_total_time_witness:
  "total_time_tokens two_total_times = [''1:23'', ''4:56'']
   \<and> testDuration (parseTestMetrics two_total_times) = Some ''1:23''"
proof -
  have t: "total_time_tokens two_total_times = [''1:23'', ''4:56'']"
    by (simp add: two_total_times_def total_time_at_def starts_with_def is_space_def is_digit_def Let_def)
  from duration_is_first_total_time [of two_total_times] t show ?thesis by simp
qed

text \<open>
  C9 as stated fails: of two total-time tokens the metric holds the first, \<open>1:23\<close>,
  and not the last, \<open>4:56\<close>.
\<close>

theorem duration_last_occurrence_counterexample:
  "total_time_tokens two_total_times = [''1:23'', ''4:56'']
   \<and> spec_last_total_time two_total_times = Some ''4:56''
   \<and> testDuration (parseTestMetrics two_total_times) = Some ''1:23''
   \<and> testDuration (parseTestMetrics two_total_times) \<noteq> spec_last_total_time two_total_times"
  by (simp add: two_total_times_def spec_last_total_time_def parseTestMetrics_def total_time_at_def
        starts_with_def is_space_def is_digit_def Let_def)

text \<open>
  C10. When the remote script returns an output, the success flag of the step is true
  exactly if the output contains \<open>BUILD SUCCESS\<close> or does not contain
  \<open>FAILURES\<close>; an output with neither token, such as the empty output, is a success.
\<close>

theorem success_flag_from_output:
  assumes "executeRemoteScript e (TestRun (length (testResults st)) p) = Inr output"
  shows "(success (runSingleTest e st p) \<longleftrightarrow>
            (\<exists>a b. output = a @ ''BUILD SUCCESS'' @ b) \<or> \<not> (\<exists>a b. output = a @ ''FAILURES'' @ b))
       \<and> (\<not> str_includes output ''BUILD SUCCESS'' \<and> \<not> str_includes output ''FAILURES''
            \<longrightarrow> success (runSingleTest e st p))
       \<and> (output = [] \<longrightarrow> success (runSingleTest e st p))"
proof -
  from assms have s: "success (runSingleTest e st p) \<longleftrightarrow>
      str_includes output ''BUILD SUCCESS'' \<or> \<not> str_includes output ''FAILURES''"
    by (simp add: runSingleTest_def Let_def)
  have "\<not> str_includes [] ''FAILURES''" by simp
  with s show ?thesis
    unfolding str_includes_iff by blast
qed

theorem success_flag_from_output_witness:
  "executeRemoteScript env_quiet (TestRun (length (testResults (new_orchestrator example_config))) 50) = Inr []
   \<and> success (runSingleTest env_quiet (new_orchestrator example_config) 50)"
proof -
  have h: "executeRemoteScript env_quiet (TestRun (length (testResults (new_orchestrator example_config))) 50) = Inr []"
    by (simp add: eval_defs)
  from success_flag_from_output [OF h] have "success (runSingleTest env_quiet (new_orchestrator example_config) 50)"
    by blast
  with h show ?thesis by simp
qed

end
